theory Spec2Isabelle
  imports Main "HOL-Library.Word"
begin

section \<open>JavaScript values and the object store\<close>

text \<open>
  The values that reach the entity authentication code: the primitives of JavaScript and
  references to objects. Numbers are restricted to integers (no NaN, no fractions); a
  reference is the address of an object in the store, so that the strict equality
  \<^verbatim>\<open>===\<close> of two references is the equality of their addresses.
\<close>

datatype jsval = JUndefined | JNull | JBool bool | JNum int | JStr string | JRef nat

text \<open>The truthiness test of \<^verbatim>\<open>if (v)\<close>.\<close>

fun truthy :: "jsval \<Rightarrow> bool" where
  "truthy JUndefined = False"
| "truthy JNull = False"
| "truthy (JBool b) = b"
| "truthy (JNum n) = (n \<noteq> 0)"
| "truthy (JStr s) = (s \<noteq> [])"
| "truthy (JRef a) = True"

text \<open>\<^verbatim>\<open>typeof v !== 'string'\<close>.\<close>

fun not_a_string :: "jsval \<Rightarrow> bool" where
  "not_a_string (JStr s) = False"
| "not_a_string v = True"

datatype EntityAuthenticationScheme = PSK | X509

datatype MslError = JSON_PARSE_ERROR | X509CERT_PARSE_ERROR

text \<open>
  An exception raised by a collaborator (the destination stream, the payload chunk
  factory): whether it is an instance of \<^verbatim>\<open>MslException\<close>, and its message.
\<close>

datatype cause = Cause bool string

text \<open>
  The exceptions the code itself throws. \<open>MslIoException_chunk n c\<close> is the
  \<^verbatim>\<open>MslIoException\<close> with the message "Error encoding payload chunk [sequence number n]."
  and the cause \<open>c\<close>; \<open>Raised c\<close> is a collaborator's exception passed on as it is;
  \<open>TypeError\<close> is what JavaScript raises when a method is called on a value that
  does not have it.
\<close>

datatype exn =
    MslEncodingException MslError
  | MslCryptoException MslError
  | MslIoException string
  | MslIoException_chunk nat cause
  | MslInternalException string
  | RangeError string
  | TypeError
  | Raised cause

text \<open>
  The objects of the store. \<open>X509Obj hex subject\<close> is a certificate object of the X.509
  library after \<^verbatim>\<open>readCertPEM\<close>: its \<^verbatim>\<open>hex\<close> field and the string its
  \<^verbatim>\<open>getSubjectString()\<close> returns. \<open>AuthData\<close> is an instance of the
  \<^verbatim>\<open>X509AuthenticationData\<close> of \<^verbatim>\<open>core/src/main/javascript/entityauth\<close>
  (scheme, identity, x509cert, x509chain); \<open>AuthData_v1\<close> is an instance of the
  \<^verbatim>\<open>X509AuthenticationData\<close> of \<^verbatim>\<open>src/main/javascript/entityauth\<close>
  (scheme, identity, x509cert), whose identity is always the string that
  \<^verbatim>\<open>getSubjectString()\<close> returned. \<open>OtherObj\<close> is any other object (an array, say).
\<close>

datatype obj =
    X509Obj string string
  | AuthData EntityAuthenticationScheme jsval jsval jsval
  | AuthData_v1 EntityAuthenticationScheme string jsval
  | OtherObj

type_synonym store = "obj list"

definition alloc :: "store \<Rightarrow> obj \<Rightarrow> nat \<times> store" where
  "alloc h ob = (length h, h @ [ob])"

definition deref :: "store \<Rightarrow> nat \<Rightarrow> obj option" where
  "deref h a = (if a < length h then Some (h ! a) else None)"

text \<open>
  A wire object (the JSON object of the authentication data) is the list of its
  properties in insertion order; reading a property that is not there gives
  \<^verbatim>\<open>undefined\<close>.
\<close>

type_synonym wire = "(string \<times> jsval) list"

definition property :: "wire \<Rightarrow> string \<Rightarrow> jsval" where
  "property jo k = (case map_of jo k of None \<Rightarrow> JUndefined | Some v \<Rightarrow> v)"

abbreviation KEY_X509_CERT :: string where "KEY_X509_CERT \<equiv> ''x509certificate''"
abbreviation KEY_X509_CHAIN :: string where "KEY_X509_CHAIN \<equiv> ''x509chain''"
abbreviation KEY_X509_IDENTITY :: string where "KEY_X509_IDENTITY \<equiv> ''identity''"


section \<open>X509AuthenticationData (core/src/main/javascript/entityauth)\<close>

text \<open>
  \<^verbatim>\<open>x509cert.getSubjectString()\<close> and \<^verbatim>\<open>x509cert.hex\<close> on a value: a
  \<^verbatim>\<open>TypeError\<close> unless the value refers to a certificate object.
\<close>

definition getSubjectString :: "store \<Rightarrow> jsval \<Rightarrow> exn + string" where
  "getSubjectString h v =
     (case v of
        JRef c \<Rightarrow> (case deref h c of Some (X509Obj hx subj) \<Rightarrow> Inr subj | _ \<Rightarrow> Inl TypeError)
      | _ \<Rightarrow> Inl TypeError)"

definition hex_of :: "store \<Rightarrow> jsval \<Rightarrow> exn + string" where
  "hex_of h v =
     (case v of
        JRef c \<Rightarrow> (case deref h c of Some (X509Obj hx subj) \<Rightarrow> Inr hx | _ \<Rightarrow> Inl TypeError)
      | _ \<Rightarrow> Inl TypeError)"

text \<open>
  The constructor \<^verbatim>\<open>init(identity, x509cert, x509chain)\<close>: the scheme is X509; when
  \<^verbatim>\<open>x509cert\<close> is truthy the identity is replaced by the certificate's subject
  string. The new instance is allocated in the store and its address returned.
\<close>

definition X509AuthenticationData_init ::
  "store \<Rightarrow> jsval \<Rightarrow> jsval \<Rightarrow> jsval \<Rightarrow> exn + (nat \<times> store)" where
  "X509AuthenticationData_init h identity x509cert x509chain =
     (if truthy x509cert then
        (case getSubjectString h x509cert of
           Inl e \<Rightarrow> Inl e
         | Inr subj \<Rightarrow> Inr (alloc h (AuthData X509 (JStr subj) x509cert x509chain)))
      else Inr (alloc h (AuthData X509 identity x509cert x509chain)))"

definition getIdentity :: "store \<Rightarrow> nat \<Rightarrow> jsval option" where
  "getIdentity h this =
     (case deref h this of
        Some (AuthData sch identity x509cert x509chain) \<Rightarrow> Some identity
      | Some (AuthData_v1 sch identity x509cert) \<Rightarrow> Some (JStr identity)
      | _ \<Rightarrow> None)"

text \<open>
  \<^verbatim>\<open>getAuthData()\<close>. The Base64 encoding of the certificate's hex string
  (\<^verbatim>\<open>CryptoJS.enc.Base64.stringify(CryptoJS.enc.Hex.parse(certHex))\<close>) belongs to a
  library and is the parameter \<open>b64\<close>. The result is \<open>None\<close> when \<open>this\<close> is not an
  instance.
\<close>

definition getAuthData :: "(string \<Rightarrow> string) \<Rightarrow> store \<Rightarrow> nat \<Rightarrow> (exn + wire) option" where
  "getAuthData b64 h this =
     (case deref h this of
        Some (AuthData sch identity x509cert x509chain) \<Rightarrow>
          Some (if truthy x509cert then
                  (case hex_of h x509cert of
                     Inl e \<Rightarrow> Inl e
                   | Inr certHex \<Rightarrow>
                       Inr [(KEY_X509_CERT, JStr (b64 certHex)), (KEY_X509_IDENTITY, identity)])
                else if truthy x509chain then
                  Inr [(KEY_X509_CHAIN, x509chain), (KEY_X509_IDENTITY, identity)]
                else Inr [(KEY_X509_IDENTITY, identity)])
      | _ \<Rightarrow> None)"

text \<open>
  Modelled from the spec: the \<^verbatim>\<open>equals\<close> of the base class
  \<^verbatim>\<open>EntityAuthenticationData\<close>, which is not among the sources, is the same-scheme
  comparison of section 3.
\<close>

definition base_equals :: "EntityAuthenticationScheme \<Rightarrow> EntityAuthenticationScheme \<Rightarrow> bool" where
  "base_equals s1 s2 = (s1 = s2)"

text \<open>
  \<^verbatim>\<open>equals(that)\<close>: true on the same object; false when \<open>that\<close> is not an instance;
  otherwise the base comparison and the strict equality of identity, certificate and
  chain. On references, strict equality compares addresses.
\<close>

definition X509AuthenticationData_equals :: "store \<Rightarrow> nat \<Rightarrow> jsval \<Rightarrow> bool" where
  "X509AuthenticationData_equals h this that =
     (if JRef this = that then True
      else (case that of
              JRef t \<Rightarrow>
                (case deref h t of
                   Some (AuthData s2 identity2 x509cert2 x509chain2) \<Rightarrow>
                     (case deref h this of
                        Some (AuthData s1 identity1 x509cert1 x509chain1) \<Rightarrow>
                          base_equals s1 s2 \<and> identity1 = identity2 \<and>
                          x509cert1 = x509cert2 \<and> x509chain1 = x509chain2
                      | _ \<Rightarrow> False)
                 | _ \<Rightarrow> False)
            | _ \<Rightarrow> False))"

text \<open>
  \<^verbatim>\<open>X509AuthenticationData$parse(x509AuthJO)\<close>. Decoding the certificate
  (\<^verbatim>\<open>new X509()\<close> and \<^verbatim>\<open>readCertPEM\<close>) belongs to a library: the parameter
  \<open>readCertPEM\<close> gives the hex string and the subject string of the decoded certificate,
  or \<open>None\<close> when the library throws. A decoded certificate is a new object.
\<close>

definition X509AuthenticationData_parse ::
  "(jsval \<Rightarrow> (string \<times> string) option) \<Rightarrow> store \<Rightarrow> wire \<Rightarrow> exn + (nat \<times> store)" where
  "X509AuthenticationData_parse readCertPEM h x509AuthJO =
     (let certB64 = property x509AuthJO KEY_X509_CERT;
          chain = property x509AuthJO KEY_X509_CHAIN;
          identity = property x509AuthJO KEY_X509_IDENTITY
      in if truthy certB64 then
           (case readCertPEM certB64 of
              None \<Rightarrow> Inl (MslCryptoException X509CERT_PARSE_ERROR)
            | Some (hx, subj) \<Rightarrow>
                (case alloc h (X509Obj hx subj) of
                   (x509, h1) \<Rightarrow> X509AuthenticationData_init h1 JNull (JRef x509) JNull))
         else if truthy chain then X509AuthenticationData_init h identity JNull chain
         else Inl (MslEncodingException JSON_PARSE_ERROR))"


section \<open>X509AuthenticationData (src/main/javascript/entityauth)\<close>

text \<open>
  The older class of the same name: it is built from a certificate alone, and its
  \<^verbatim>\<open>equals\<close> compares the identities with \<^verbatim>\<open>==\<close> (both are strings).
\<close>

definition X509AuthenticationData_v1_init :: "store \<Rightarrow> jsval \<Rightarrow> exn + (nat \<times> store)" where
  "X509AuthenticationData_v1_init h x509cert =
     (case getSubjectString h x509cert of
        Inl e \<Rightarrow> Inl e
      | Inr identity \<Rightarrow> Inr (alloc h (AuthData_v1 X509 identity x509cert)))"

definition getAuthData_v1 :: "(string \<Rightarrow> string) \<Rightarrow> store \<Rightarrow> nat \<Rightarrow> (exn + wire) option" where
  "getAuthData_v1 b64 h this =
     (case deref h this of
        Some (AuthData_v1 sch identity x509cert) \<Rightarrow>
          Some (case hex_of h x509cert of
                  Inl e \<Rightarrow> Inl e
                | Inr certHex \<Rightarrow> Inr [(KEY_X509_CERT, JStr (b64 certHex))])
      | _ \<Rightarrow> None)"

definition X509AuthenticationData_v1_equals :: "store \<Rightarrow> nat \<Rightarrow> jsval \<Rightarrow> bool" where
  "X509AuthenticationData_v1_equals h this that =
     (if JRef this = that then True
      else (case that of
              JRef t \<Rightarrow>
                (case deref h t of
                   Some (AuthData_v1 s2 identity2 x509cert2) \<Rightarrow>
                     (case deref h this of
                        Some (AuthData_v1 s1 identity1 x509cert1) \<Rightarrow>
                          base_equals s1 s2 \<and> identity1 = identity2
                      | _ \<Rightarrow> False)
                 | _ \<Rightarrow> False)
            | _ \<Rightarrow> False))"

definition X509AuthenticationData_v1_parse ::
  "(jsval \<Rightarrow> (string \<times> string) option) \<Rightarrow> store \<Rightarrow> wire \<Rightarrow> exn + (nat \<times> store)" where
  "X509AuthenticationData_v1_parse readCertPEM h x509AuthJO =
     (let certB64 = property x509AuthJO KEY_X509_CERT
      in if not_a_string certB64 then Inl (MslEncodingException JSON_PARSE_ERROR)
         else (case readCertPEM certB64 of
                 None \<Rightarrow> Inl (MslCryptoException X509CERT_PARSE_ERROR)
               | Some (hx, subj) \<Rightarrow>
                   (case alloc h (X509Obj hx subj) of
                      (x509, h1) \<Rightarrow> X509AuthenticationData_v1_init h1 (JRef x509))))"


section \<open>MessageOutputStream: data\<close>

datatype CompressionAlgorithm = GZIP | LZW

text \<open>
  The header of a stream: a message header with its message id and the answer of
  \<^verbatim>\<open>isHandshake()\<close>, or an error header. \<^verbatim>\<open>getMessageHeader()\<close> is null
  exactly for the error header.
\<close>

datatype header = MessageHeader int bool | ErrorHeader

text \<open>
  Modelled from the spec: a payload chunk (\<^verbatim>\<open>PayloadChunk$create\<close> is not among the
  sources) holds the sequence number, message id, end-of-message flag, compression
  algorithm and data it is created from; its cryptographic protection is left out.
\<close>

record PayloadChunk =
  sequenceNumber :: nat
  messageId :: int
  endofmsg :: bool
  chunkCompressionAlgo :: "CompressionAlgorithm option"
  data :: "8 word list"

text \<open>
  Which callback an operation ends in: \<^verbatim>\<open>callback.result(v)\<close>,
  \<^verbatim>\<open>callback.timeout()\<close> or \<^verbatim>\<open>callback.error(e)\<close>. The
  \<^verbatim>\<open>InterruptibleExecutor\<close> turns a returned value into the first and a thrown
  exception into the last.
\<close>

datatype 'a outcome = is_Result: Result 'a | Timeout | Error exn

text \<open>
  What the destination stream answers to \<^verbatim>\<open>write\<close> and to \<^verbatim>\<open>flush\<close>: the
  result callback (with the number of bytes written, or the success flag), the timeout
  callback or the error callback.
\<close>

datatype sink_write = NumWritten nat | WriteTimeout | WriteError cause

datatype sink_flush = Flushed bool | FlushTimeout | FlushError cause

text \<open>
  What can happen to a stream while one of its operations is suspended: the destination
  answers the write or the flush of the header, or the caller calls \<^verbatim>\<open>abort()\<close> or
  \<^verbatim>\<open>stopCaching()\<close>.
\<close>

datatype async = HeaderWritten sink_write | HeaderFlushed sink_flush | AbortCall | StopCachingCall

datatype transmission = WritingHeader | FlushingHeader | HeaderDone

datatype poll_end = PollTimeout | PollError cause

text \<open>
  The environment of one \<^verbatim>\<open>flush\<close>: what happens while it waits for readiness and
  how the wait ends if nothing releases it; what happens while the chunk is created, and
  whether \<^verbatim>\<open>PayloadChunk$create\<close> delivers the chunk (\<open>None\<close>) or an error; the
  value of \<^verbatim>\<open>chunk.length\<close> (\<open>None\<close> for undefined); what happens during the
  destination's write and its answer; what happens during the destination's flush and its
  answer.
\<close>

record flush_io =
  during_poll :: "async list"
  poll_end :: poll_end
  during_create :: "async list"
  created :: "cause option"
  chunk_length :: "nat option"
  during_write :: "async list"
  written :: sink_write
  during_flush :: "async list"
  flushed :: sink_flush

text \<open>
  The fields of a stream, named as in the source without the underscore. The destination
  is represented by what the stream did to it: the chunks whose encoding was handed to
  \<^verbatim>\<open>destination.write\<close>, in order, and whether \<^verbatim>\<open>destination.abort\<close> and
  \<^verbatim>\<open>destination.close\<close> were called. \<open>headerLength\<close> is the length of the encoded
  header and \<open>transmission\<close> the state of its transmission. Sequence numbers are natural
  numbers (the source increments a double, exact below \<open>2 ^ 53\<close>).
\<close>

record MessageOutputStream =
  capabilities :: "CompressionAlgorithm list option"
  header :: header
  compressionAlgo :: "CompressionAlgorithm option"
  payloadSequenceNumber :: nat
  currentPayload :: "8 word list list option"
  closed :: bool
  closeDestinationFlag :: bool
  caching :: bool
  payloads :: "PayloadChunk list"
  ready :: bool
  readyQueue :: "bool list"
  aborted :: bool
  timedout :: bool
  errored :: "cause option"
  headerLength :: nat
  transmission :: transmission
  destination_chunks :: "PayloadChunk list"
  destination_aborted :: bool
  destination_closed :: bool


section \<open>MessageOutputStream: construction and header transmission\<close>

text \<open>
  \<^verbatim>\<open>init\<close>. \<open>caps\<close> is the value of \<^verbatim>\<open>MessageCapabilities$intersection\<close>
  (\<open>None\<close> for null) and \<open>getPreferredAlgorithm\<close> the function
  \<^verbatim>\<open>MslConstants$CompressionAlgorithm$getPreferredAlgorithm\<close>; neither is among the
  sources. The constructor starts writing the header and returns at once.
\<close>

definition MessageOutputStream_init ::
  "(CompressionAlgorithm list \<Rightarrow> CompressionAlgorithm option) \<Rightarrow>
   CompressionAlgorithm list option \<Rightarrow> header \<Rightarrow> nat \<Rightarrow> MessageOutputStream" where
  "MessageOutputStream_init getPreferredAlgorithm caps hdr hdrLength =
     \<lparr> capabilities = caps,
       header = hdr,
       compressionAlgo = (case caps of None \<Rightarrow> None | Some algos \<Rightarrow> getPreferredAlgorithm algos),
       payloadSequenceNumber = 1,
       currentPayload = Some [],
       closed = False,
       closeDestinationFlag = False,
       caching = True,
       payloads = [],
       ready = False,
       readyQueue = [],
       aborted = False,
       timedout = False,
       errored = None,
       headerLength = hdrLength,
       transmission = WritingHeader,
       destination_chunks = [],
       destination_aborted = False,
       destination_closed = False \<rparr>"

text \<open>The local function \<^verbatim>\<open>ready()\<close> of the constructor.\<close>

definition set_ready :: "MessageOutputStream \<Rightarrow> MessageOutputStream" where
  "set_ready s = s\<lparr>ready := True, readyQueue := readyQueue s @ [True]\<rparr>"

text \<open>
  The callbacks of the header's \<^verbatim>\<open>destination.write\<close>. An answer that arrives when
  no such write is outstanding changes nothing.
\<close>

definition header_written :: "sink_write \<Rightarrow> MessageOutputStream \<Rightarrow> MessageOutputStream" where
  "header_written w s =
     (if transmission s \<noteq> WritingHeader then s
      else (case w of
              NumWritten numWritten \<Rightarrow>
                if aborted s then set_ready (s\<lparr>transmission := HeaderDone\<rparr>)
                else if numWritten < headerLength s
                  then set_ready (s\<lparr>timedout := True, transmission := HeaderDone\<rparr>)
                else s\<lparr>transmission := FlushingHeader\<rparr>
            | WriteTimeout \<Rightarrow> set_ready (s\<lparr>timedout := True, transmission := HeaderDone\<rparr>)
            | WriteError e \<Rightarrow> set_ready (s\<lparr>errored := Some e, transmission := HeaderDone\<rparr>)))"

text \<open>
  The callbacks of the header's \<^verbatim>\<open>destination.flush\<close>; an exception thrown by the
  call itself is recorded like one delivered to the error callback.
\<close>

definition header_flushed :: "sink_flush \<Rightarrow> MessageOutputStream \<Rightarrow> MessageOutputStream" where
  "header_flushed f s =
     (if transmission s \<noteq> FlushingHeader then s
      else (case f of
              Flushed success \<Rightarrow>
                if aborted s then set_ready (s\<lparr>transmission := HeaderDone\<rparr>)
                else set_ready (s\<lparr>timedout := \<not> success, transmission := HeaderDone\<rparr>)
            | FlushTimeout \<Rightarrow> set_ready (s\<lparr>timedout := True, transmission := HeaderDone\<rparr>)
            | FlushError e \<Rightarrow> set_ready (s\<lparr>errored := Some e, transmission := HeaderDone\<rparr>)))"


section \<open>MessageOutputStream: the synchronous methods\<close>

definition getMessageHeader :: "MessageOutputStream \<Rightarrow> (int \<times> bool) option" where
  "getMessageHeader s =
     (case header s of MessageHeader mid handshake \<Rightarrow> Some (mid, handshake) | ErrorHeader \<Rightarrow> None)"

definition getPayloads :: "MessageOutputStream \<Rightarrow> PayloadChunk list" where
  "getPayloads s = payloads s"

definition stopCaching :: "MessageOutputStream \<Rightarrow> MessageOutputStream" where
  "stopCaching s = s\<lparr>caching := False, payloads := []\<rparr>"

text \<open>
  \<^verbatim>\<open>abort()\<close>. Its \<^verbatim>\<open>readyQueue.cancelAll()\<close> releases the operation that waits
  for readiness; that is part of \<open>poll\<close> below.
\<close>

definition abort :: "MessageOutputStream \<Rightarrow> MessageOutputStream" where
  "abort s = s\<lparr>aborted := True, destination_aborted := True\<rparr>"

definition closeDestination :: "bool \<Rightarrow> MessageOutputStream \<Rightarrow> MessageOutputStream" where
  "closeDestination c s = s\<lparr>closeDestinationFlag := c\<rparr>"

fun async_step :: "async \<Rightarrow> MessageOutputStream \<Rightarrow> MessageOutputStream" where
  "async_step (HeaderWritten w) s = header_written w s"
| "async_step (HeaderFlushed f) s = header_flushed f s"
| "async_step AbortCall s = abort s"
| "async_step StopCachingCall s = stopCaching s"

text \<open>
  Modelled from the spec: \<^verbatim>\<open>readyQueue.poll\<close> (the \<^verbatim>\<open>BlockingQueue\<close> is not
  among the sources) delivers a queued element at once; otherwise it waits, is handed
  the element that \<^verbatim>\<open>ready()\<close> adds, delivers undefined when \<^verbatim>\<open>abort()\<close> cancels
  it, and expires when nothing of what happens during the wait releases it.
\<close>

datatype polled = Element bool | Cancelled | Expired

fun poll :: "async list \<Rightarrow> MessageOutputStream \<Rightarrow> polled \<times> MessageOutputStream" where
  "poll [] s =
     (case readyQueue s of
        x # q \<Rightarrow> (Element x, s\<lparr>readyQueue := q\<rparr>)
      | [] \<Rightarrow> (Expired, s))"
| "poll (e # es) s =
     (case readyQueue s of
        x # q \<Rightarrow> (Element x, s\<lparr>readyQueue := q\<rparr>)
      | [] \<Rightarrow> if e = AbortCall then (Cancelled, abort s) else poll es (async_step e s))"


section \<open>MessageOutputStream: flush\<close>

text \<open>
  The error callbacks of \<^verbatim>\<open>flush\<close> wrap an \<^verbatim>\<open>MslException\<close> into an
  \<^verbatim>\<open>MslIoException\<close> that names the current sequence number.
\<close>

definition wrap :: "nat \<Rightarrow> cause \<Rightarrow> exn" where
  "wrap n e = (case e of Cause isMslException m \<Rightarrow>
                 if isMslException then MslIoException_chunk n e else Raised e)"

text \<open>The result callback of \<^verbatim>\<open>destination.flush\<close>.\<close>

definition flush_result :: "bool \<Rightarrow> MessageOutputStream \<Rightarrow> bool outcome \<times> MessageOutputStream" where
  "flush_result success s =
     (if aborted s then (Result False, s)
      else if \<not> success then (Timeout, s)
      else (Result True,
            s\<lparr>payloadSequenceNumber := payloadSequenceNumber s + 1,
              currentPayload := (if closed s then None else Some [])\<rparr>))"

text \<open>
  The result callback of \<^verbatim>\<open>destination.write\<close>; the comparison
  \<^verbatim>\<open>numWritten < chunk.length\<close> is false when \<^verbatim>\<open>chunk.length\<close> is undefined.
\<close>

definition write_result ::
  "flush_io \<Rightarrow> nat \<Rightarrow> MessageOutputStream \<Rightarrow> bool outcome \<times> MessageOutputStream" where
  "write_result io numWritten s =
     (if aborted s then (Result False, s)
      else if (case chunk_length io of None \<Rightarrow> False | Some l \<Rightarrow> numWritten < l) then (Timeout, s)
      else (let s1 = fold async_step (during_flush io) s
            in case flushed io of
                 Flushed success \<Rightarrow> flush_result success s1
               | FlushTimeout \<Rightarrow> (Timeout, s1)
               | FlushError e \<Rightarrow> (Error (wrap (payloadSequenceNumber s1) e), s1)))"

text \<open>
  The result callback of \<^verbatim>\<open>PayloadChunk$create\<close>: the chunk is cached if caching is
  on, and its encoding is handed to \<^verbatim>\<open>destination.write\<close>.
\<close>

definition chunk_result ::
  "flush_io \<Rightarrow> PayloadChunk \<Rightarrow> MessageOutputStream \<Rightarrow> bool outcome \<times> MessageOutputStream" where
  "chunk_result io chunk s =
     (let s1 = (if caching s then s\<lparr>payloads := payloads s @ [chunk]\<rparr> else s);
          s2 = s1\<lparr>destination_chunks := destination_chunks s1 @ [chunk]\<rparr>;
          s3 = fold async_step (during_write io) s2
      in case written io of
           NumWritten numWritten \<Rightarrow> write_result io numWritten s3
         | WriteTimeout \<Rightarrow> (Timeout, s3)
         | WriteError e \<Rightarrow> (Error (wrap (payloadSequenceNumber s3) e), s3))"

text \<open>The local function \<^verbatim>\<open>perform()\<close> of \<^verbatim>\<open>flush\<close>.\<close>

definition perform :: "flush_io \<Rightarrow> MessageOutputStream \<Rightarrow> bool outcome \<times> MessageOutputStream" where
  "perform io s =
     (if aborted s then (Result False, s)
      else if timedout s then (Timeout, s)
      else (case errored s of
              Some e \<Rightarrow> (Error (Raised e), s)
            | None \<Rightarrow>
               (case currentPayload s of
                  None \<Rightarrow> (Result True, s)
                | Some segments \<Rightarrow>
                    if \<not> closed s \<and> length segments = 0 then (Result True, s)
                    else (case getMessageHeader s of
                            None \<Rightarrow> (Result True, s)
                          | Some (mid, handshake) \<Rightarrow>
                              if handshake then (Result True, s)
                              else (let chunk = \<lparr> sequenceNumber = payloadSequenceNumber s,
                                                  messageId = mid,
                                                  endofmsg = closed s,
                                                  chunkCompressionAlgo = compressionAlgo s,
                                                  data = concat segments \<rparr>;
                                        s1 = fold async_step (during_create io) s
                                    in case created io of
                                         Some e \<Rightarrow> (Error (wrap (payloadSequenceNumber s1) e), s1)
                                       | None \<Rightarrow> chunk_result io chunk s1)))))"

text \<open>
  \<^verbatim>\<open>flush\<close>: when the stream is not ready it polls the ready queue first; a
  cancelled poll (undefined) gives the result false.
\<close>

definition flush :: "flush_io \<Rightarrow> MessageOutputStream \<Rightarrow> bool outcome \<times> MessageOutputStream" where
  "flush io s =
     (if \<not> ready s then
        (case poll (during_poll io) s of
           (Element x, s1) \<Rightarrow> perform io s1
         | (Cancelled, s1) \<Rightarrow> (Result False, s1)
         | (Expired, s1) \<Rightarrow>
             (case poll_end io of
                PollTimeout \<Rightarrow> (Timeout, s1)
              | PollError e \<Rightarrow> (Error (Raised e), s1)))
      else perform io s)"


section \<open>MessageOutputStream: close, setCompressionAlgorithm, write\<close>

text \<open>
  \<^verbatim>\<open>close\<close>; \<open>closing\<close> is the answer of \<^verbatim>\<open>destination.close\<close>, which gets the
  caller's callback as it is.
\<close>

definition close ::
  "flush_io \<Rightarrow> bool outcome \<Rightarrow> MessageOutputStream \<Rightarrow> bool outcome \<times> MessageOutputStream" where
  "close io closing s =
     (if aborted s then (Result False, s)
      else if timedout s then (Timeout, s)
      else (case errored s of
              Some e \<Rightarrow> (Error (Raised e), s)
            | None \<Rightarrow>
                if closed s then (Result True, s)
                else (case flush io (s\<lparr>closed := True\<rparr>) of
                        (Result success, s1) \<Rightarrow>
                          (let s2 = (if success then s1\<lparr>currentPayload := None\<rparr> else s1)
                           in if closeDestinationFlag s2
                              then (closing, s2\<lparr>destination_closed := True\<rparr>)
                              else (Result success, s2))
                      | (Timeout, s1) \<Rightarrow> (Timeout, s1)
                      | (Error e, s1) \<Rightarrow> (Error e, s1))))"

text \<open>The local function \<^verbatim>\<open>flush()\<close> of \<^verbatim>\<open>setCompressionAlgorithm\<close>.\<close>

definition flush_then_set ::
  "CompressionAlgorithm option \<Rightarrow> flush_io \<Rightarrow> MessageOutputStream \<Rightarrow>
   bool outcome \<times> MessageOutputStream" where
  "flush_then_set algo io s =
     (case flush io s of
        (Result success, s1) \<Rightarrow>
          if \<not> success then (Error (MslIoException ''flush() aborted''), s1)
          else (Result True, s1\<lparr>compressionAlgo := algo\<rparr>)
      | (Timeout, s1) \<Rightarrow> (Timeout, s1)
      | (Error e, s1) \<Rightarrow> (Error e, s1))"

definition setCompressionAlgorithm ::
  "CompressionAlgorithm option \<Rightarrow> flush_io \<Rightarrow> MessageOutputStream \<Rightarrow>
   bool outcome \<times> MessageOutputStream" where
  "setCompressionAlgorithm algo io s =
     (case getMessageHeader s of
        None \<Rightarrow> (Error (MslInternalException ''Cannot write payload data for an error message.''), s)
      | Some messageHeader \<Rightarrow>
          if compressionAlgo s = algo then (Result True, s)
          else (case algo of
                  Some a \<Rightarrow>
                    (case capabilities s of
                       None \<Rightarrow> (Result False, s)
                     | Some compressionAlgos \<Rightarrow>
                         if a \<in> set compressionAlgos then flush_then_set algo io s
                         else (Result False, s))
                | None \<Rightarrow> flush_then_set algo io s))"

text \<open>
  \<^verbatim>\<open>write(data, off, len)\<close> (the name \<open>write\<close> is taken in Isabelle): the result is false or the number of bytes appended.
  Appending to a current payload that is null is a \<^verbatim>\<open>TypeError\<close>.
\<close>

definition MessageOutputStream_write ::
  "8 word list \<Rightarrow> int \<Rightarrow> int \<Rightarrow> MessageOutputStream \<Rightarrow> jsval outcome \<times> MessageOutputStream" where
  "MessageOutputStream_write dat off len s =
     (if aborted s then (Result (JBool False), s)
      else if timedout s then (Timeout, s)
      else (case errored s of
              Some e \<Rightarrow> (Error (Raised e), s)
            | None \<Rightarrow>
                if closed s then (Error (MslIoException ''Message output stream already closed.''), s)
                else if off < 0 then (Error (RangeError ''Offset cannot be negative.''), s)
                else if len < 0 then (Error (RangeError ''Length cannot be negative.''), s)
                else if off + len > int (length dat)
                  then (Error (RangeError
                          ''Offset plus length cannot be greater than the array length.''), s)
                else (case getMessageHeader s of
                        None \<Rightarrow>
                          (Error (MslInternalException
                             ''Cannot write payload data for an error message.''), s)
                      | Some (mid, handshake) \<Rightarrow>
                          if handshake
                          then (Error (MslInternalException
                                  ''Cannot write payload data for a handshake message.''), s)
                          else (let bytes = take (nat len) (drop (nat off) dat)
                                in case currentPayload s of
                                     None \<Rightarrow> (Error TypeError, s)
                                   | Some segments \<Rightarrow>
                                       (Result (JNum (int (length bytes))),
                                        s\<lparr>currentPayload := Some (segments @ [bytes])\<rparr>)))))"


section \<open>MessageOutputStream: sequences of calls\<close>

text \<open>
  A call of a method with the answers of its environment, or something that happens
  between two calls. Results are given as JavaScript values; a method without callback
  answers undefined.
\<close>

datatype call =
    is_Write: Write "8 word list" int int
  | Flush flush_io
  | is_Close: Close flush_io "bool outcome"
  | SetCompressionAlgorithm "CompressionAlgorithm option" flush_io
  | CloseDestination bool
  | Async async

fun exec :: "call \<Rightarrow> MessageOutputStream \<Rightarrow> jsval outcome \<times> MessageOutputStream" where
  "exec (Write dat off len) s = MessageOutputStream_write dat off len s"
| "exec (Flush io) s = (case flush io s of (r, s1) \<Rightarrow> (map_outcome JBool r, s1))"
| "exec (Close io closing) s = (case close io closing s of (r, s1) \<Rightarrow> (map_outcome JBool r, s1))"
| "exec (SetCompressionAlgorithm algo io) s =
     (case setCompressionAlgorithm algo io s of (r, s1) \<Rightarrow> (map_outcome JBool r, s1))"
| "exec (CloseDestination c) s = (Result JUndefined, closeDestination c s)"
| "exec (Async e) s = (Result JUndefined, async_step e s)"

fun run :: "call list \<Rightarrow> MessageOutputStream \<Rightarrow> MessageOutputStream" where
  "run [] s = s"
| "run (c # cs) s = run cs (snd (exec c s))"

fun replies :: "call list \<Rightarrow> MessageOutputStream \<Rightarrow> jsval outcome list" where
  "replies [] s = []"
| "replies (c # cs) s = fst (exec c s) # replies cs (snd (exec c s))"

text \<open>
  What happens while a flush is suspended, and what happens during a call: the events of
  its flush, or the event itself.
\<close>

definition io_events :: "flush_io \<Rightarrow> async list" where
  "io_events io = during_poll io @ during_create io @ during_write io @ during_flush io"

fun call_events :: "call \<Rightarrow> async list" where
  "call_events (Write dat off len) = []"
| "call_events (Flush io) = io_events io"
| "call_events (Close io closing) = io_events io"
| "call_events (SetCompressionAlgorithm algo io) = io_events io"
| "call_events (CloseDestination c) = []"
| "call_events (Async e) = [e]"

text \<open>The sequence numbers handed to the destination so far.\<close>

definition emitted_numbers :: "MessageOutputStream \<Rightarrow> nat list" where
  "emitted_numbers s = map sequenceNumber (destination_chunks s)"

text \<open>
  A list of numbers that never decreases and never skips: each element is its
  predecessor (\<open>p\<close> for the first) or one more.
\<close>

fun no_gaps :: "nat \<Rightarrow> nat list \<Rightarrow> bool" where
  "no_gaps p [] = True"
| "no_gaps p (x # xs) = ((x = p \<or> x = Suc p) \<and> no_gaps x xs)"

text \<open>The list starts at \<open>n\<close> and has no gaps.\<close>

fun numbered_from :: "nat \<Rightarrow> nat list \<Rightarrow> bool" where
  "numbered_from n [] = True"
| "numbered_from n (x # xs) = (x = n \<and> no_gaps n xs)"

text \<open>Once an element is true, all later ones are.\<close>

fun flags_last :: "bool list \<Rightarrow> bool" where
  "flags_last [] = True"
| "flags_last (b # bs) = ((if b then list_all (\<lambda>x. x) bs else True) \<and> flags_last bs)"


section \<open>Notation for the proofs\<close>

text \<open>The chunk that \<^verbatim>\<open>perform\<close> creates in the state \<open>s\<close>.\<close>

abbreviation next_chunk :: "MessageOutputStream \<Rightarrow> int \<Rightarrow> 8 word list list \<Rightarrow> PayloadChunk" where
  "next_chunk s mid segments \<equiv>
     \<lparr> sequenceNumber = payloadSequenceNumber s, messageId = mid, endofmsg = closed s,
       chunkCompressionAlgo = compressionAlgo s, data = concat segments \<rparr>"

text \<open>
  What a flush with the reply \<open>r\<close> may have done between the states \<open>s\<close> and \<open>s'\<close>:
  either it handed nothing to the destination, and then it reports success only if there
  was nothing to send; or it handed over exactly the next chunk, and then it either
  reports success, with the sequence number incremented and the buffer reset, or does not,
  with both unchanged.
\<close>

abbreviation flush_may :: "bool outcome \<Rightarrow> MessageOutputStream \<Rightarrow> MessageOutputStream \<Rightarrow> bool" where
  "flush_may r s s' \<equiv>
     (destination_chunks s' = destination_chunks s \<and>
      payloadSequenceNumber s' = payloadSequenceNumber s \<and>
      currentPayload s' = currentPayload s \<and>
      (r = Result False \<longrightarrow> aborted s') \<and>
      (r = Result True \<longrightarrow>
         \<not> aborted s' \<and>
         (currentPayload s = None \<or> (\<not> closed s \<and> currentPayload s = Some []) \<or>
          (\<forall>mid. header s \<noteq> MessageHeader mid False)))) \<or>
     (\<exists>segments mid.
        currentPayload s = Some segments \<and> header s = MessageHeader mid False \<and>
        (closed s \<or> segments \<noteq> []) \<and>
        destination_chunks s' = destination_chunks s @ [next_chunk s mid segments] \<and>
        ((r = Result True \<and> \<not> aborted s' \<and>
          payloadSequenceNumber s' = Suc (payloadSequenceNumber s) \<and>
          currentPayload s' = (if closed s then None else Some [])) \<or>
         (r \<noteq> Result True \<and> (r = Result False \<longrightarrow> aborted s') \<and>
          payloadSequenceNumber s' = payloadSequenceNumber s \<and>
          currentPayload s' = Some segments)))"

text \<open>
  The numbers handed over so far start at 1 and have no gaps, and the counter is the last
  of them or one more.
\<close>

abbreviation counting :: "MessageOutputStream \<Rightarrow> bool" where
  "counting s \<equiv>
     numbered_from 1 (emitted_numbers s) \<and> 0 < payloadSequenceNumber s \<and>
     (payloadSequenceNumber s = last (0 # emitted_numbers s) \<or>
      payloadSequenceNumber s = Suc (last (0 # emitted_numbers s)))"

text \<open>The numbers handed over so far are exactly those below the counter.\<close>

abbreviation counted :: "MessageOutputStream \<Rightarrow> bool" where
  "counted s \<equiv> emitted_numbers s = [1..<payloadSequenceNumber s] \<and> 0 < payloadSequenceNumber s"

text \<open>A call whose reply is a result and that leaves the stream not aborted.\<close>

abbreviation good :: "call \<Rightarrow> MessageOutputStream \<Rightarrow> bool" where
  "good c s \<equiv> is_Result (fst (exec c s)) \<and> \<not> aborted (snd (exec c s))"

text \<open>
  Before \<^verbatim>\<open>close\<close> no chunk handed over is flagged and the buffer is there; after it
  the last chunk, and only the last, is flagged and the buffer is null.
\<close>

abbreviation one_end :: "MessageOutputStream \<Rightarrow> bool" where
  "one_end s \<equiv>
     (if closed s
      then destination_chunks s \<noteq> [] \<and> endofmsg (last (destination_chunks s)) \<and>
           list_all (\<lambda>c. \<not> endofmsg c) (butlast (destination_chunks s)) \<and> currentPayload s = None
      else list_all (\<lambda>c. \<not> endofmsg c) (destination_chunks s) \<and> currentPayload s \<noteq> None)"

text \<open>
  Before \<^verbatim>\<open>close\<close> nothing was handed over and the buffer is empty; after it a
  single chunk was: the first, flagged, without data.
\<close>

abbreviation only_end :: "MessageOutputStream \<Rightarrow> bool" where
  "only_end s \<equiv>
     (if closed s
      then map sequenceNumber (destination_chunks s) = [1] \<and>
           map endofmsg (destination_chunks s) = [True] \<and>
           map data (destination_chunks s) = [[]] \<and> currentPayload s = None
      else destination_chunks s = [] \<and> currentPayload s = Some [] \<and> payloadSequenceNumber s = 1)"

text \<open>Caching is on and the cache holds exactly the chunks handed to the destination.\<close>

abbreviation caches :: "MessageOutputStream \<Rightarrow> bool" where
  "caches s \<equiv> caching s \<and> payloads s = destination_chunks s"

section \<open>Example stores and library stand-ins\<close>

text \<open>
  A store with two certificate objects of different bytes and the same subject, and the
  two instances constructed from them (at the addresses 2 and 3).
\<close>

definition two_certs :: store where
  "two_certs = [X509Obj ''3082AA'' ''CN=device'', X509Obj ''3082BB'' ''CN=device'']"

definition two_instances :: store where
  "two_instances = two_certs @
     [AuthData X509 (JStr ''CN=device'') (JRef 0) JNull,
      AuthData X509 (JStr ''CN=device'') (JRef 1) JNull]"

definition two_instances_v1 :: store where
  "two_instances_v1 = two_certs @
     [AuthData_v1 X509 ''CN=device'' (JRef 0), AuthData_v1 X509 ''CN=device'' (JRef 1)]"

text \<open>
  Stand-ins for the two library functions in the examples: the encoder prefixes the hex
  string, the decoder accepts exactly the strings with that prefix and reads a
  certificate whose subject is \<open>CN=device\<close>.
\<close>

definition example_b64 :: "string \<Rightarrow> string" where
  "example_b64 hx = ''b64:'' @ hx"

fun example_readCertPEM :: "jsval \<Rightarrow> (string \<times> string) option" where
  "example_readCertPEM (JStr s) =
     (if take 4 s = ''b64:'' then Some (drop 4 s, ''CN=device'') else None)"
| "example_readCertPEM v = None"

text \<open>
  An instance constructed from a certificate (at address 1), its wire object, and the
  store after parsing that wire object: the parsed instance is at address 3.
\<close>

definition one_instance :: store where
  "one_instance = [X509Obj ''3082AA'' ''CN=device'', AuthData X509 (JStr ''CN=device'') (JRef 0) JNull]"

definition one_instance_wire :: wire where
  "one_instance_wire = [(KEY_X509_CERT, JStr ''b64:3082AA''), (KEY_X509_IDENTITY, JStr ''CN=device'')]"

definition one_instance_parsed :: store where
  "one_instance_parsed = one_instance @
     [X509Obj ''3082AA'' ''CN=device'', AuthData X509 (JStr ''CN=device'') (JRef 2) JNull]"


text \<open>
  A stand-in for \<^verbatim>\<open>getPreferredAlgorithm\<close> in the examples, and a new stream with a
  data-bearing message header (message id 1, header of 10 bytes) whose capabilities
  allow LZW.
\<close>

definition example_preferred :: "CompressionAlgorithm list \<Rightarrow> CompressionAlgorithm option" where
  "example_preferred algos =
     (if GZIP \<in> set algos then Some GZIP else if LZW \<in> set algos then Some LZW else None)"

definition new_stream :: MessageOutputStream where
  "new_stream = MessageOutputStream_init example_preferred (Some [LZW]) (MessageHeader 1 False) 10"

text \<open>The destination answers the write and the flush of the header with success.\<close>

definition header_sent :: "call list" where
  "header_sent = [Async (HeaderWritten (NumWritten 10)), Async (HeaderFlushed (Flushed True))]"

text \<open>
  An environment in which nothing happens during a flush and every step succeeds, and
  one in which the destination's flush reports failure.
\<close>

definition io_ok :: flush_io where
  "io_ok = \<lparr> during_poll = [], poll_end = PollTimeout, during_create = [], created = None,
             chunk_length = None, during_write = [], written = NumWritten 100,
             during_flush = [], flushed = Flushed True \<rparr>"

definition io_flush_fails :: flush_io where
  "io_flush_fails = io_ok\<lparr>flushed := Flushed False\<rparr>"

text \<open>
  A new stream whose capabilities allow GZIP and LZW (GZIP is chosen), a new stream with
  an error header, and a new stream with the header of a handshake message.
\<close>

definition gzip_lzw_stream :: MessageOutputStream where
  "gzip_lzw_stream =
     MessageOutputStream_init example_preferred (Some [GZIP, LZW]) (MessageHeader 1 False) 10"

definition error_stream :: MessageOutputStream where
  "error_stream = MessageOutputStream_init example_preferred None ErrorHeader 10"

definition handshake_stream :: MessageOutputStream where
  "handshake_stream = MessageOutputStream_init example_preferred (Some [LZW]) (MessageHeader 1 True) 10"

text \<open>
  An environment in which \<^verbatim>\<open>abort()\<close> is called while the destination writes the
  chunk, and the destination then reports a timeout.
\<close>

definition io_abort_then_timeout :: flush_io where
  "io_abort_then_timeout = io_ok\<lparr>during_write := [AbortCall], written := WriteTimeout\<rparr>"

text \<open>An environment in which \<^verbatim>\<open>abort()\<close> is called while the flush waits for readiness.\<close>

definition io_abort_while_waiting :: flush_io where
  "io_abort_while_waiting = io_ok\<lparr>during_poll := [AbortCall]\<rparr>"
section \<open>Facts about the store\<close>

lemma deref_alloc_new: "alloc h ob = (a, h') \<Longrightarrow> deref h' a = Some ob"
  by (auto simp: alloc_def deref_def)

lemma deref_alloc_old: "alloc h ob = (a, h') \<Longrightarrow> b < length h \<Longrightarrow> deref h' b = deref h b"
  by (auto simp: alloc_def deref_def nth_append)

lemma deref_Some_less: "deref h a = Some ob \<Longrightarrow> a < length h"
  by (auto simp: deref_def split: if_splits)

lemma alloc_fresh: "alloc h ob = (a, h') \<Longrightarrow> a = length h"
  by (simp add: alloc_def)


section \<open>The identity of an X509AuthenticationData\<close>

text \<open>
  C5. Constructing an X509AuthenticationData with a certificate present gives the
  certificate's subject string as identity, whatever identity argument is passed; the
  identity argument is used as it is when no certificate is present (the certificate
  argument is null, undefined or otherwise falsy).
\<close>

theorem init_identity_from_certificate:
  "(deref h c = Some (X509Obj hx subj) \<longrightarrow>
      (\<exists>a h'. X509AuthenticationData_init h identity (JRef c) x509chain = Inr (a, h') \<and>
               getIdentity h' a = Some (JStr subj))) \<and>
   (\<not> truthy x509cert \<longrightarrow>
      (\<exists>a h'. X509AuthenticationData_init h identity x509cert x509chain = Inr (a, h') \<and>
               getIdentity h' a = Some identity))"
  by (auto simp: X509AuthenticationData_init_def getSubjectString_def getIdentity_def
      alloc_def deref_def)

theorem init_identity_from_certificate_witness:
  "(\<exists>a h'. X509AuthenticationData_init [X509Obj ''3082'' ''CN=device''] (JStr ''other'') (JRef 0) JNull
              = Inr (a, h') \<and> getIdentity h' a = Some (JStr ''CN=device'')) \<and>
   (\<exists>a h'. X509AuthenticationData_init [] (JStr ''other'') JNull (JStr ''chain'')
              = Inr (a, h') \<and> getIdentity h' a = Some (JStr ''other''))"
  using init_identity_from_certificate
          [of "[X509Obj ''3082'' ''CN=device'']" 0 "''3082''" "''CN=device''" "JStr ''other''" JNull JNull]
        init_identity_from_certificate
          [of "[]" 0 "''3082''" "''CN=device''" "JStr ''other''" "JStr ''chain''" JNull]
  by (simp add: deref_def)


section \<open>Equality of X509AuthenticationData\<close>

lemma two_instances_constructed:
  "X509AuthenticationData_init two_certs JNull (JRef 0) JNull
     = Inr (2, two_certs @ [AuthData X509 (JStr ''CN=device'') (JRef 0) JNull])"
  "X509AuthenticationData_init (two_certs @ [AuthData X509 (JStr ''CN=device'') (JRef 0) JNull])
     JNull (JRef 1) JNull = Inr (3, two_instances)"
  by (simp_all add: X509AuthenticationData_init_def getSubjectString_def deref_def alloc_def
      two_certs_def two_instances_def)

lemma two_instances_v1_constructed:
  "X509AuthenticationData_v1_init two_certs (JRef 0)
     = Inr (2, two_certs @ [AuthData_v1 X509 ''CN=device'' (JRef 0)])"
  "X509AuthenticationData_v1_init (two_certs @ [AuthData_v1 X509 ''CN=device'' (JRef 0)]) (JRef 1)
     = Inr (3, two_instances_v1)"
  by (simp_all add: X509AuthenticationData_v1_init_def getSubjectString_def deref_def alloc_def
      two_certs_def two_instances_v1_def)

text \<open>
  The class of \<^verbatim>\<open>src/main/javascript/entityauth\<close> compares by identity: two of its
  instances are equal exactly when their schemes and identities are.
\<close>

lemma v1_equals_iff_identity:
  assumes "deref h a = Some (AuthData_v1 s1 identity1 cert1)"
    and "deref h b = Some (AuthData_v1 s2 identity2 cert2)"
  shows "X509AuthenticationData_v1_equals h a (JRef b) \<longleftrightarrow> s1 = s2 \<and> identity1 = identity2"
  using assms by (auto simp: X509AuthenticationData_v1_equals_def base_equals_def)

lemma v1_equals_same_subject:
  "X509AuthenticationData_v1_equals two_instances_v1 2 (JRef 3)"
  by (simp add: X509AuthenticationData_v1_equals_def base_equals_def deref_def
      two_instances_v1_def two_certs_def)

text \<open>
  C1. Two X509AuthenticationData instances of
  \<^verbatim>\<open>core/src/main/javascript/entityauth\<close>, constructed from two certificates of
  different bytes and the same subject, have the same scheme and the same identity, and
  \<^verbatim>\<open>equals\<close> is false on them: it also compares the certificate objects by reference.
\<close>

theorem equals_same_subject_different_certificate:
  "deref two_instances 2 = Some (AuthData X509 (JStr ''CN=device'') (JRef 0) JNull) \<and>
   deref two_instances 3 = Some (AuthData X509 (JStr ''CN=device'') (JRef 1) JNull) \<and>
   getIdentity two_instances 2 = getIdentity two_instances 3 \<and>
   X509AuthenticationData_equals two_instances 2 (JRef 3) = False"
  by (simp add: X509AuthenticationData_equals_def base_equals_def deref_def getIdentity_def
      two_instances_def two_certs_def)


section \<open>Parsing the wire object\<close>

lemma init_after_alloc:
  "X509AuthenticationData_init (h @ [X509Obj hx subj]) identity (JRef (length h)) x509chain
     = Inr (Suc (length h),
            h @ [X509Obj hx subj, AuthData X509 (JStr subj) (JRef (length h)) x509chain])"
  by (simp add: X509AuthenticationData_init_def getSubjectString_def deref_def alloc_def)

lemma init_v1_after_alloc:
  "X509AuthenticationData_v1_init (h @ [X509Obj hx subj]) (JRef (length h))
     = Inr (Suc (length h), h @ [X509Obj hx subj, AuthData_v1 X509 subj (JRef (length h))])"
  by (simp add: X509AuthenticationData_v1_init_def getSubjectString_def deref_def alloc_def)

lemma parse_cases:
  "X509AuthenticationData_parse rd h jo =
     (if truthy (property jo KEY_X509_CERT) then
        (case rd (property jo KEY_X509_CERT) of
           None \<Rightarrow> Inl (MslCryptoException X509CERT_PARSE_ERROR)
         | Some (hx, subj) \<Rightarrow>
             Inr (Suc (length h),
                  h @ [X509Obj hx subj, AuthData X509 (JStr subj) (JRef (length h)) JNull]))
      else if truthy (property jo KEY_X509_CHAIN) then
        Inr (length h,
             h @ [AuthData X509 (property jo KEY_X509_IDENTITY) JNull (property jo KEY_X509_CHAIN)])
      else Inl (MslEncodingException JSON_PARSE_ERROR))"
  by (auto simp: X509AuthenticationData_parse_def Let_def alloc_def
      X509AuthenticationData_init_def getSubjectString_def deref_def split: option.splits)

lemma parse_v1_cases:
  "X509AuthenticationData_v1_parse rd h jo =
     (if not_a_string (property jo KEY_X509_CERT) then Inl (MslEncodingException JSON_PARSE_ERROR)
      else (case rd (property jo KEY_X509_CERT) of
              None \<Rightarrow> Inl (MslCryptoException X509CERT_PARSE_ERROR)
            | Some (hx, subj) \<Rightarrow>
                Inr (Suc (length h), h @ [X509Obj hx subj, AuthData_v1 X509 subj (JRef (length h))])))"
  by (auto simp: X509AuthenticationData_v1_parse_def Let_def alloc_def init_v1_after_alloc
      split: option.splits)

text \<open>
  C9, as the code has it. The parser of \<^verbatim>\<open>core\<close> fails with the encoding exception
  (JSON_PARSE_ERROR) when \<^verbatim>\<open>x509certificate\<close> and \<^verbatim>\<open>x509chain\<close> are both
  absent (or otherwise falsy); it fails with the crypto exception (X509CERT_PARSE_ERROR)
  exactly when \<^verbatim>\<open>x509certificate\<close> is present and cannot be decoded; it succeeds when
  \<^verbatim>\<open>x509certificate\<close> can be decoded, with the certificate's subject as identity,
  and when, without a certificate, \<^verbatim>\<open>x509chain\<close> is present and \<^verbatim>\<open>identity\<close> is a
  string, with that string as identity. The parser of \<^verbatim>\<open>src/main\<close> reads
  \<^verbatim>\<open>x509certificate\<close> alone: the encoding exception exactly when it is not a string,
  the crypto exception exactly when it is a string that cannot be decoded, success
  otherwise. (A chain that comes without an identity string is not covered.)
\<close>

theorem parse_failures:
  "(\<not> truthy (property jo KEY_X509_CERT) \<and> \<not> truthy (property jo KEY_X509_CHAIN) \<longrightarrow>
      X509AuthenticationData_parse rd h jo = Inl (MslEncodingException JSON_PARSE_ERROR)) \<and>
   (X509AuthenticationData_parse rd h jo = Inl (MslCryptoException X509CERT_PARSE_ERROR)
      \<longleftrightarrow> truthy (property jo KEY_X509_CERT) \<and> rd (property jo KEY_X509_CERT) = None) \<and>
   (truthy (property jo KEY_X509_CERT) \<and> rd (property jo KEY_X509_CERT) = Some (hx, subj) \<longrightarrow>
      (\<exists>a h'. X509AuthenticationData_parse rd h jo = Inr (a, h') \<and>
               getIdentity h' a = Some (JStr subj))) \<and>
   (\<not> truthy (property jo KEY_X509_CERT) \<and> truthy (property jo KEY_X509_CHAIN) \<and>
    property jo KEY_X509_IDENTITY = JStr i \<longrightarrow>
      (\<exists>a h'. X509AuthenticationData_parse rd h jo = Inr (a, h') \<and>
               getIdentity h' a = Some (JStr i))) \<and>
   (X509AuthenticationData_v1_parse rd h jo = Inl (MslEncodingException JSON_PARSE_ERROR)
      \<longleftrightarrow> not_a_string (property jo KEY_X509_CERT)) \<and>
   (X509AuthenticationData_v1_parse rd h jo = Inl (MslCryptoException X509CERT_PARSE_ERROR)
      \<longleftrightarrow> \<not> not_a_string (property jo KEY_X509_CERT) \<and> rd (property jo KEY_X509_CERT) = None) \<and>
   ((\<exists>a h'. X509AuthenticationData_v1_parse rd h jo = Inr (a, h'))
      \<longleftrightarrow> \<not> not_a_string (property jo KEY_X509_CERT) \<and> rd (property jo KEY_X509_CERT) \<noteq> None)"
  by (auto simp: parse_cases parse_v1_cases getIdentity_def deref_def nth_append
      split: option.splits)

theorem parse_failures_witness:
  "(\<exists>a h'. X509AuthenticationData_parse example_readCertPEM []
              [(KEY_X509_CHAIN, JStr ''chain''), (KEY_X509_IDENTITY, JStr ''device'')] = Inr (a, h') \<and>
            getIdentity h' a = Some (JStr ''device'')) \<and>
   (\<exists>a h'. X509AuthenticationData_parse example_readCertPEM []
              [(KEY_X509_CERT, JStr ''b64:3082AA''), (KEY_X509_IDENTITY, JStr ''other'')] = Inr (a, h') \<and>
            getIdentity h' a = Some (JStr ''CN=device'')) \<and>
   X509AuthenticationData_parse example_readCertPEM [] [(KEY_X509_IDENTITY, JStr ''device'')]
     = Inl (MslEncodingException JSON_PARSE_ERROR) \<and>
   X509AuthenticationData_parse example_readCertPEM [] [(KEY_X509_CERT, JStr ''garbage'')]
     = Inl (MslCryptoException X509CERT_PARSE_ERROR)"
  using parse_failures [of "[(KEY_X509_CHAIN, JStr ''chain''), (KEY_X509_IDENTITY, JStr ''device'')]"
          example_readCertPEM "[]" "''3082AA''" "''CN=device''" "''device''"]
        parse_failures [of "[(KEY_X509_CERT, JStr ''b64:3082AA''), (KEY_X509_IDENTITY, JStr ''other'')]"
          example_readCertPEM "[]" "''3082AA''" "''CN=device''" "''device''"]
        parse_failures [of "[(KEY_X509_IDENTITY, JStr ''device'')]"
          example_readCertPEM "[]" "''3082AA''" "''CN=device''" "''device''"]
        parse_failures [of "[(KEY_X509_CERT, JStr ''garbage'')]"
          example_readCertPEM "[]" "''3082AA''" "''CN=device''" "''device''"]
  by (simp add: property_def)

text \<open>
  The claim as stated fails: a wire object with a chain and an identity has the
  mandatory fields of the table, and the parser of \<^verbatim>\<open>src/main\<close>, which knows the
  certificate only, rejects it with the encoding exception.
\<close>

theorem parse_chain_counterexample:
  "X509AuthenticationData_v1_parse example_readCertPEM []
       [(KEY_X509_CHAIN, JStr ''chain''), (KEY_X509_IDENTITY, JStr ''device'')]
     = Inl (MslEncodingException JSON_PARSE_ERROR)"
  by (simp add: parse_v1_cases property_def)

text \<open>
  Where the chain comes without an identity the parser of \<^verbatim>\<open>core\<close> has no test of
  the identity at all, unlike its test of the certificate and the chain: it builds an
  instance whose identity is undefined.
\<close>

lemma parse_chain_without_identity:
  "X509AuthenticationData_parse example_readCertPEM [] [(KEY_X509_CHAIN, JStr ''chain'')]
     = Inr (0, [AuthData X509 JUndefined JNull (JStr ''chain'')])"
  by (simp add: parse_cases property_def)


section \<open>Serialising and parsing back\<close>

text \<open>
  C6. The instance serialises to its wire object; parsing the wire object succeeds and
  the parsed instance serialises to the same wire object; but \<^verbatim>\<open>equals\<close> between
  the instance and the parsed one is false, since the parser decodes the certificate into
  a new object.
\<close>

theorem roundtrip_not_equal:
  "X509AuthenticationData_init [X509Obj ''3082AA'' ''CN=device''] JNull (JRef 0) JNull
     = Inr (1, one_instance) \<and>
   getAuthData example_b64 one_instance 1 = Some (Inr one_instance_wire) \<and>
   X509AuthenticationData_parse example_readCertPEM one_instance one_instance_wire
     = Inr (3, one_instance_parsed) \<and>
   getAuthData example_b64 one_instance_parsed 3 = Some (Inr one_instance_wire) \<and>
   X509AuthenticationData_equals one_instance_parsed 1 (JRef 3) = False"
  by (simp add: parse_cases property_def one_instance_def one_instance_wire_def
      one_instance_parsed_def getAuthData_def hex_of_def deref_def example_b64_def
      X509AuthenticationData_equals_def X509AuthenticationData_init_def getSubjectString_def
      alloc_def)

text \<open>
  The same holds of every instance with a certificate: whatever the two library
  functions are, the instance the parser builds from a certificate is never
  \<^verbatim>\<open>equals\<close> to an instance already in the store.
\<close>

lemma parsed_certificate_never_equal:
  assumes "truthy (property jo KEY_X509_CERT)"
    and "X509AuthenticationData_parse rd h jo = Inr (b, h')"
    and "deref h a = Some (AuthData s identity (JRef c) chain)"
    and "deref h c = Some (X509Obj hx subj)"
  shows "\<not> X509AuthenticationData_equals h' a (JRef b)"
proof -
  from assms(3) have a: "a < length h" by (rule deref_Some_less)
  from assms(4) have c: "c < length h" by (rule deref_Some_less)
  from assms(1,2) obtain hx' subj' where
    b: "b = Suc (length h)" and
    h': "h' = h @ [X509Obj hx' subj', AuthData X509 (JStr subj') (JRef (length h)) JNull]"
    by (auto simp: parse_cases split: option.splits)
  from a assms(3) have "deref h' a = Some (AuthData s identity (JRef c) chain)"
    by (auto simp: h' deref_def nth_append)
  moreover have "deref h' b = Some (AuthData X509 (JStr subj') (JRef (length h)) JNull)"
    by (simp add: h' b deref_def nth_append)
  ultimately show ?thesis
    using a c by (auto simp: X509AuthenticationData_equals_def b)
qed

text \<open>
  The class of \<^verbatim>\<open>src/main/javascript/entityauth\<close> does round-trip, provided the
  decoder inverts the encoder: the parsed instance is \<^verbatim>\<open>equals\<close> to the original
  and serialises to the same wire object.
\<close>

lemma v1_roundtrip:
  assumes inst: "deref h a = Some (AuthData_v1 X509 subj (JRef c))"
    and cert: "deref h c = Some (X509Obj hx subj)"
    and inv: "rd (JStr (b64 hx)) = Some (hx, subj)"
  shows "\<exists>jo b h'. getAuthData_v1 b64 h a = Some (Inr jo) \<and>
           X509AuthenticationData_v1_parse rd h jo = Inr (b, h') \<and>
           X509AuthenticationData_v1_equals h' a (JRef b) \<and>
           getAuthData_v1 b64 h' b = Some (Inr jo)"
proof -
  from inst have a: "a < length h" by (rule deref_Some_less)
  from cert have c: "c < length h" by (rule deref_Some_less)
  let ?jo = "[(KEY_X509_CERT, JStr (b64 hx))]"
  let ?h' = "h @ [X509Obj hx subj, AuthData_v1 X509 subj (JRef (length h))]"
  have 1: "getAuthData_v1 b64 h a = Some (Inr ?jo)"
    using inst cert by (simp add: getAuthData_v1_def hex_of_def)
  have 2: "X509AuthenticationData_v1_parse rd h ?jo = Inr (Suc (length h), ?h')"
    using inv by (simp add: parse_v1_cases property_def)
  have 3: "deref ?h' a = Some (AuthData_v1 X509 subj (JRef c))"
    using inst a by (auto simp: deref_def nth_append)
  have 4: "deref ?h' (Suc (length h)) = Some (AuthData_v1 X509 subj (JRef (length h)))"
    by (simp add: deref_def nth_append)
  have 5: "X509AuthenticationData_v1_equals ?h' a (JRef (Suc (length h)))"
    using 3 4 by (simp add: X509AuthenticationData_v1_equals_def base_equals_def)
  have 6: "getAuthData_v1 b64 ?h' (Suc (length h)) = Some (Inr ?jo)"
    using 4 by (simp add: getAuthData_v1_def hex_of_def deref_def nth_append)
  from 1 2 5 6 show ?thesis by blast
qed

section \<open>Evaluating concrete runs\<close>

lemmas eval_defs = new_stream_def MessageOutputStream_init_def header_sent_def io_ok_def
  io_flush_fails_def example_preferred_def header_written_def header_flushed_def set_ready_def
  MessageOutputStream_write_def flush_def perform_def chunk_result_def write_result_def
  flush_result_def close_def getMessageHeader_def emitted_numbers_def abort_def stopCaching_def
  closeDestination_def setCompressionAlgorithm_def flush_then_set_def wrap_def Let_def

lemmas eval_more = eval_defs gzip_lzw_stream_def error_stream_def handshake_stream_def
  io_abort_then_timeout_def io_abort_while_waiting_def io_events_def


section \<open>What the asynchronous events leave unchanged\<close>

lemma async_step_frame [simp]:
  "destination_chunks (async_step e s) = destination_chunks s"
  "payloadSequenceNumber (async_step e s) = payloadSequenceNumber s"
  "currentPayload (async_step e s) = currentPayload s"
  "closed (async_step e s) = closed s"
  "header (async_step e s) = header s"
  "compressionAlgo (async_step e s) = compressionAlgo s"
  "capabilities (async_step e s) = capabilities s"
  "closeDestinationFlag (async_step e s) = closeDestinationFlag s"
  by (cases e; simp add: header_written_def header_flushed_def set_ready_def abort_def
      stopCaching_def split: sink_write.splits sink_flush.splits)+

lemma fold_async_frame [simp]:
  "destination_chunks (fold async_step evs s) = destination_chunks s"
  "payloadSequenceNumber (fold async_step evs s) = payloadSequenceNumber s"
  "currentPayload (fold async_step evs s) = currentPayload s"
  "closed (fold async_step evs s) = closed s"
  "header (fold async_step evs s) = header s"
  "compressionAlgo (fold async_step evs s) = compressionAlgo s"
  "capabilities (fold async_step evs s) = capabilities s"
  "closeDestinationFlag (fold async_step evs s) = closeDestinationFlag s"
  by (induction evs arbitrary: s; simp)+

lemma poll_frame [simp]:
  "destination_chunks (snd (poll evs s)) = destination_chunks s"
  "payloadSequenceNumber (snd (poll evs s)) = payloadSequenceNumber s"
  "currentPayload (snd (poll evs s)) = currentPayload s"
  "closed (snd (poll evs s)) = closed s"
  "header (snd (poll evs s)) = header s"
  "compressionAlgo (snd (poll evs s)) = compressionAlgo s"
  "capabilities (snd (poll evs s)) = capabilities s"
  "closeDestinationFlag (snd (poll evs s)) = closeDestinationFlag s"
  by (induction evs arbitrary: s; simp add: abort_def split: list.splits)+

text \<open>With caching off and the cache empty, both stay so through a flush.\<close>

lemma async_step_cache_off:
  "\<not> caching s \<and> payloads s = [] \<Longrightarrow> \<not> caching (async_step e s) \<and> payloads (async_step e s) = []"
  by (cases e; simp add: header_written_def header_flushed_def set_ready_def abort_def
      stopCaching_def split: sink_write.splits sink_flush.splits)

lemma fold_async_cache_off:
  "\<not> caching s \<and> payloads s = [] \<Longrightarrow>
   \<not> caching (fold async_step evs s) \<and> payloads (fold async_step evs s) = []"
  by (induction evs arbitrary: s) (simp_all add: async_step_cache_off)

lemma poll_cache_off:
  "\<not> caching s \<and> payloads s = [] \<Longrightarrow>
   \<not> caching (snd (poll evs s)) \<and> payloads (snd (poll evs s)) = []"
  by (induction evs arbitrary: s) (simp_all add: async_step_cache_off abort_def split: list.splits)

lemma flush_result_cache_off:
  "\<not> caching s \<and> payloads s = [] \<Longrightarrow>
   \<not> caching (snd (flush_result b s)) \<and> payloads (snd (flush_result b s)) = []"
  by (simp add: flush_result_def)

lemma write_result_cache_off:
  "\<not> caching s \<and> payloads s = [] \<Longrightarrow>
   \<not> caching (snd (write_result io n s)) \<and> payloads (snd (write_result io n s)) = []"
  using fold_async_cache_off [of s "during_flush io"]
  by (simp add: write_result_def Let_def flush_result_cache_off split: sink_flush.splits)

lemma chunk_result_cache_off:
  assumes "\<not> caching s \<and> payloads s = []"
  shows "\<not> caching (snd (chunk_result io c s)) \<and> payloads (snd (chunk_result io c s)) = []"
proof -
  let ?s2 = "s\<lparr>destination_chunks := destination_chunks s @ [c]\<rparr>"
  have "\<not> caching ?s2 \<and> payloads ?s2 = []" using assms by simp
  then have "\<not> caching (fold async_step (during_write io) ?s2) \<and>
             payloads (fold async_step (during_write io) ?s2) = []"
    by (rule fold_async_cache_off)
  then show ?thesis
    using assms by (simp add: chunk_result_def Let_def write_result_cache_off split: sink_write.splits)
qed

lemma perform_cache_off:
  assumes "\<not> caching s \<and> payloads s = []"
  shows "\<not> caching (snd (perform io s)) \<and> payloads (snd (perform io s)) = []"
  using assms fold_async_cache_off [OF assms, of "during_create io"]
  by (simp add: perform_def Let_def chunk_result_cache_off split: option.splits prod.splits)

lemma flush_cache_off:
  assumes "\<not> caching s \<and> payloads s = []"
  shows "\<not> caching (snd (flush io s)) \<and> payloads (snd (flush io s)) = []"
  using poll_cache_off [OF assms, of "during_poll io"]
  by (auto simp: flush_def perform_cache_off assms split: prod.splits polled.splits poll_end.splits)


section \<open>The effect of a flush\<close>

lemma async_step_aborted: "aborted s \<Longrightarrow> aborted (async_step e s)"
  by (cases e; simp add: header_written_def header_flushed_def set_ready_def abort_def
      stopCaching_def split: sink_write.splits sink_flush.splits)

lemma fold_async_aborted: "aborted s \<Longrightarrow> aborted (fold async_step evs s)"
  by (induction evs arbitrary: s) (simp_all add: async_step_aborted)

lemma poll_aborted: "aborted s \<Longrightarrow> aborted (snd (poll evs s))"
  by (induction evs arbitrary: s) (simp_all add: async_step_aborted abort_def split: list.splits)

lemma poll_Cancelled_aborted: "poll evs s = (Cancelled, s1) \<Longrightarrow> aborted s1"
  by (induction evs arbitrary: s) (auto simp: abort_def split: list.splits if_splits)


lemma flush_result_frame [simp]:
  "closed (snd (flush_result b s)) = closed s"
  "header (snd (flush_result b s)) = header s"
  "compressionAlgo (snd (flush_result b s)) = compressionAlgo s"
  "capabilities (snd (flush_result b s)) = capabilities s"
  "closeDestinationFlag (snd (flush_result b s)) = closeDestinationFlag s"
  "destination_chunks (snd (flush_result b s)) = destination_chunks s"
  "aborted (snd (flush_result b s)) = aborted s"
  by (simp_all add: flush_result_def)

lemma flush_result_tail:
  "(fst (flush_result b s) = Result True \<and> \<not> aborted s \<and>
    payloadSequenceNumber (snd (flush_result b s)) = Suc (payloadSequenceNumber s) \<and>
    currentPayload (snd (flush_result b s)) = (if closed s then None else Some [])) \<or>
   (fst (flush_result b s) \<noteq> Result True \<and> (fst (flush_result b s) = Result False \<longrightarrow> aborted s) \<and>
    payloadSequenceNumber (snd (flush_result b s)) = payloadSequenceNumber s \<and>
    currentPayload (snd (flush_result b s)) = currentPayload s)"
  by (simp add: flush_result_def)

lemma write_result_frame [simp]:
  "closed (snd (write_result io n s)) = closed s"
  "header (snd (write_result io n s)) = header s"
  "compressionAlgo (snd (write_result io n s)) = compressionAlgo s"
  "capabilities (snd (write_result io n s)) = capabilities s"
  "closeDestinationFlag (snd (write_result io n s)) = closeDestinationFlag s"
  "destination_chunks (snd (write_result io n s)) = destination_chunks s"
  by (simp_all add: write_result_def Let_def split: sink_flush.splits)

lemma write_result_tail:
  "(fst (write_result io n s) = Result True \<and> \<not> aborted (snd (write_result io n s)) \<and>
    payloadSequenceNumber (snd (write_result io n s)) = Suc (payloadSequenceNumber s) \<and>
    currentPayload (snd (write_result io n s)) = (if closed s then None else Some [])) \<or>
   (fst (write_result io n s) \<noteq> Result True \<and>
    (fst (write_result io n s) = Result False \<longrightarrow> aborted (snd (write_result io n s))) \<and>
    payloadSequenceNumber (snd (write_result io n s)) = payloadSequenceNumber s \<and>
    currentPayload (snd (write_result io n s)) = currentPayload s)"
proof (cases "aborted s \<or> (case chunk_length io of None \<Rightarrow> False | Some l \<Rightarrow> n < l)")
  case True
  then show ?thesis by (auto simp: write_result_def)
next
  case False
  let ?s1 = "fold async_step (during_flush io) s"
  show ?thesis
  proof (cases "flushed io")
    case (Flushed b)
    then have "write_result io n s = flush_result b ?s1"
      using False by (simp add: write_result_def Let_def)
    then show ?thesis using flush_result_tail [of b ?s1] by simp
  next
    case FlushTimeout
    then show ?thesis using False by (simp add: write_result_def Let_def)
  next
    case (FlushError e)
    then show ?thesis using False by (simp add: write_result_def Let_def)
  qed
qed

lemma chunk_result_frame [simp]:
  "closed (snd (chunk_result io c s)) = closed s"
  "header (snd (chunk_result io c s)) = header s"
  "compressionAlgo (snd (chunk_result io c s)) = compressionAlgo s"
  "capabilities (snd (chunk_result io c s)) = capabilities s"
  "closeDestinationFlag (snd (chunk_result io c s)) = closeDestinationFlag s"
  "destination_chunks (snd (chunk_result io c s)) = destination_chunks s @ [c]"
  by (simp_all add: chunk_result_def Let_def split: sink_write.splits)

lemma chunk_result_tail:
  "(fst (chunk_result io c s) = Result True \<and> \<not> aborted (snd (chunk_result io c s)) \<and>
    payloadSequenceNumber (snd (chunk_result io c s)) = Suc (payloadSequenceNumber s) \<and>
    currentPayload (snd (chunk_result io c s)) = (if closed s then None else Some [])) \<or>
   (fst (chunk_result io c s) \<noteq> Result True \<and>
    (fst (chunk_result io c s) = Result False \<longrightarrow> aborted (snd (chunk_result io c s))) \<and>
    payloadSequenceNumber (snd (chunk_result io c s)) = payloadSequenceNumber s \<and>
    currentPayload (snd (chunk_result io c s)) = currentPayload s)"
proof -
  let ?s1 = "if caching s then s\<lparr>payloads := payloads s @ [c]\<rparr> else s"
  let ?s3 = "fold async_step (during_write io) (?s1\<lparr>destination_chunks := destination_chunks ?s1 @ [c]\<rparr>)"
  have f: "payloadSequenceNumber ?s3 = payloadSequenceNumber s" "currentPayload ?s3 = currentPayload s"
    "closed ?s3 = closed s"
    by simp_all
  show ?thesis
  proof (cases "written io")
    case (NumWritten k)
    then have "chunk_result io c s = write_result io k ?s3"
      by (simp add: chunk_result_def Let_def)
    then show ?thesis using write_result_tail [of io k ?s3] f by simp
  next
    case WriteTimeout
    then show ?thesis using f by (simp add: chunk_result_def Let_def)
  next
    case (WriteError e)
    then show ?thesis using f by (simp add: chunk_result_def Let_def)
  qed
qed

lemma perform_noop:
  assumes "aborted s \<or> timedout s \<or> errored s \<noteq> None \<or> currentPayload s = None \<or>
           (\<not> closed s \<and> currentPayload s = Some []) \<or> (\<forall>mid. header s \<noteq> MessageHeader mid False)"
  shows "snd (perform io s) = s"
    and "fst (perform io s) =
           (if aborted s then Result False else if timedout s then Timeout
            else case errored s of Some e \<Rightarrow> Error (Raised e) | None \<Rightarrow> Result True)"
  using assms
  by (auto simp: perform_def getMessageHeader_def split: option.splits header.splits)

lemma perform_emit:
  assumes "\<not> aborted s" "\<not> timedout s" "errored s = None" "currentPayload s = Some segments"
    "closed s \<or> segments \<noteq> []" "header s = MessageHeader mid False"
  shows "perform io s =
           (case created io of
              Some e \<Rightarrow> (Error (wrap (payloadSequenceNumber s) e), fold async_step (during_create io) s)
            | None \<Rightarrow> chunk_result io (next_chunk s mid segments) (fold async_step (during_create io) s))"
  using assms by (auto simp: perform_def getMessageHeader_def Let_def split: option.splits)

lemma perform_frame [simp]:
  "closed (snd (perform io s)) = closed s"
  "header (snd (perform io s)) = header s"
  "compressionAlgo (snd (perform io s)) = compressionAlgo s"
  "capabilities (snd (perform io s)) = capabilities s"
  "closeDestinationFlag (snd (perform io s)) = closeDestinationFlag s"
  by (simp_all add: perform_def getMessageHeader_def Let_def split: option.splits header.splits)


lemma chunk_result_aborted: "aborted s \<Longrightarrow> aborted (snd (chunk_result io c s))"
proof -
  assume a: "aborted s"
  let ?s1 = "if caching s then s\<lparr>payloads := payloads s @ [c]\<rparr> else s"
  let ?s3 = "fold async_step (during_write io) (?s1\<lparr>destination_chunks := destination_chunks ?s1 @ [c]\<rparr>)"
  have "aborted ?s3" using a by (intro fold_async_aborted) simp
  then show ?thesis
    by (cases "written io") (simp_all add: chunk_result_def Let_def write_result_def)
qed

lemma perform_aborted: "aborted s \<Longrightarrow> aborted (snd (perform io s))"
  by (simp add: perform_def)


lemma perform_effect: "flush_may (fst (perform io s)) s (snd (perform io s))"
proof (cases "aborted s \<or> timedout s \<or> errored s \<noteq> None \<or> currentPayload s = None \<or>
           (\<not> closed s \<and> currentPayload s = Some []) \<or> (\<forall>mid. header s \<noteq> MessageHeader mid False)")
  case True
  have 1: "snd (perform io s) = s" by (rule perform_noop(1) [OF True])
  have 2: "fst (perform io s) =
           (if aborted s then Result False else if timedout s then Timeout
            else case errored s of Some e \<Rightarrow> Error (Raised e) | None \<Rightarrow> Result True)"
    by (rule perform_noop(2) [OF True])
  show ?thesis
    unfolding 1 2 using True by (auto split: option.splits)
next
  case False
  then obtain segments mid where h: "\<not> aborted s" "\<not> timedout s" "errored s = None"
    "currentPayload s = Some segments" "closed s \<or> segments \<noteq> []" "header s = MessageHeader mid False"
    by auto
  let ?s1 = "fold async_step (during_create io) s"
  let ?c = "next_chunk s mid segments"
  note pe = perform_emit [OF h, of io]
  show ?thesis
  proof (cases "created io")
    case (Some e)
    then have "perform io s = (Error (wrap (payloadSequenceNumber s) e), ?s1)"
      using pe by simp
    then show ?thesis using h by simp
  next
    case None
    then have p: "perform io s = chunk_result io ?c ?s1" using pe by simp
    have "\<exists>segments mid.
      currentPayload s = Some segments \<and> header s = MessageHeader mid False \<and>
      (closed s \<or> segments \<noteq> []) \<and>
      destination_chunks (snd (perform io s)) = destination_chunks s @ [next_chunk s mid segments] \<and>
      ((fst (perform io s) = Result True \<and> \<not> aborted (snd (perform io s)) \<and>
        payloadSequenceNumber (snd (perform io s)) = Suc (payloadSequenceNumber s) \<and>
        currentPayload (snd (perform io s)) = (if closed s then None else Some [])) \<or>
       (fst (perform io s) \<noteq> Result True \<and>
        (fst (perform io s) = Result False \<longrightarrow> aborted (snd (perform io s))) \<and>
        payloadSequenceNumber (snd (perform io s)) = payloadSequenceNumber s \<and>
        currentPayload (snd (perform io s)) = Some segments))"
      apply (rule exI [of _ segments], rule exI [of _ mid])
      unfolding p using chunk_result_tail [of io ?c ?s1] h
      by simp
    then show ?thesis ..
  qed
qed

lemma flush_frame [simp]:
  "closed (snd (flush io s)) = closed s"
  "header (snd (flush io s)) = header s"
  "compressionAlgo (snd (flush io s)) = compressionAlgo s"
  "capabilities (snd (flush io s)) = capabilities s"
  "closeDestinationFlag (snd (flush io s)) = closeDestinationFlag s"
proof -
  obtain p s1 where p: "poll (during_poll io) s = (p, s1)" by (cases "poll (during_poll io) s")
  then have "s1 = snd (poll (during_poll io) s)" by simp
  then have f: "closed s1 = closed s" "header s1 = header s" "compressionAlgo s1 = compressionAlgo s"
    "capabilities s1 = capabilities s" "closeDestinationFlag s1 = closeDestinationFlag s"
    by simp_all
  show "closed (snd (flush io s)) = closed s"
    "header (snd (flush io s)) = header s"
    "compressionAlgo (snd (flush io s)) = compressionAlgo s"
    "capabilities (snd (flush io s)) = capabilities s"
    "closeDestinationFlag (snd (flush io s)) = closeDestinationFlag s"
    using p f by (simp_all add: flush_def split: polled.splits poll_end.splits)
qed

lemma flush_aborted: "aborted s \<Longrightarrow> aborted (snd (flush io s))"
  using poll_aborted [of s "during_poll io"]
  by (auto simp: flush_def perform_aborted split: prod.splits polled.splits poll_end.splits)

lemma flush_effect: "flush_may (fst (flush io s)) s (snd (flush io s))"
proof (cases "ready s")
  case True
  then have "flush io s = perform io s" by (simp add: flush_def)
  then show ?thesis using perform_effect [of io s] by simp
next
  case False
  obtain p s1 where p: "poll (during_poll io) s = (p, s1)" by (cases "poll (during_poll io) s")
  then have "s1 = snd (poll (during_poll io) s)" by simp
  then have f: "closed s1 = closed s" "header s1 = header s" "compressionAlgo s1 = compressionAlgo s"
    "destination_chunks s1 = destination_chunks s" "payloadSequenceNumber s1 = payloadSequenceNumber s"
    "currentPayload s1 = currentPayload s"
    by simp_all
  show ?thesis
  proof (cases p)
    case (Element x)
    then have "flush io s = perform io s1" using False p by (simp add: flush_def)
    then show ?thesis using perform_effect [of io s1] unfolding f by simp
  next
    case Cancelled
    then have "flush io s = (Result False, s1)" using False p by (simp add: flush_def)
    moreover have "aborted s1" using p Cancelled by (simp add: poll_Cancelled_aborted)
    ultimately show ?thesis using f by simp
  next
    case Expired
    then have "snd (flush io s) = s1" "\<not> is_Result (fst (flush io s))"
      using False p by (simp_all add: flush_def split: poll_end.splits)
    then show ?thesis using f by (cases "fst (flush io s)") simp_all
  qed
qed

section \<open>Close and setCompressionAlgorithm in terms of flush\<close>

lemma close_noop:
  assumes "aborted s \<or> timedout s \<or> errored s \<noteq> None \<or> closed s"
  shows "snd (close io closing s) = s"
  using assms by (auto simp: close_def split: option.splits)

lemma close_flushes:
  assumes "\<not> aborted s" "\<not> timedout s" "errored s = None" "\<not> closed s"
  shows "close io closing s =
           (case flush io (s\<lparr>closed := True\<rparr>) of
              (Result success, s1) \<Rightarrow>
                (let s2 = (if success then s1\<lparr>currentPayload := None\<rparr> else s1)
                 in if closeDestinationFlag s2
                    then (closing, s2\<lparr>destination_closed := True\<rparr>)
                    else (Result success, s2))
            | (Timeout, s1) \<Rightarrow> (Timeout, s1)
            | (Error e, s1) \<Rightarrow> (Error e, s1))"
  using assms by (simp add: close_def)

text \<open>
  The state after \<^verbatim>\<open>close\<close> is the state after its flush, up to the current
  payload and the closing of the destination.
\<close>

lemma close_state:
  assumes "\<not> aborted s" "\<not> timedout s" "errored s = None" "\<not> closed s"
  shows "destination_chunks (snd (close io closing s)) =
           destination_chunks (snd (flush io (s\<lparr>closed := True\<rparr>)))"
    and "payloadSequenceNumber (snd (close io closing s)) =
           payloadSequenceNumber (snd (flush io (s\<lparr>closed := True\<rparr>)))"
    and "caching (snd (close io closing s)) = caching (snd (flush io (s\<lparr>closed := True\<rparr>)))"
    and "payloads (snd (close io closing s)) = payloads (snd (flush io (s\<lparr>closed := True\<rparr>)))"
    and "aborted (snd (close io closing s)) = aborted (snd (flush io (s\<lparr>closed := True\<rparr>)))"
    and "closed (snd (close io closing s))"
    and "header (snd (close io closing s)) = header s"
    and "compressionAlgo (snd (close io closing s)) = compressionAlgo s"
    and "currentPayload (snd (close io closing s)) =
           currentPayload (snd (flush io (s\<lparr>closed := True\<rparr>))) \<or>
         currentPayload (snd (close io closing s)) = None"
proof -
  obtain r s1 where f: "flush io (s\<lparr>closed := True\<rparr>) = (r, s1)"
    by (cases "flush io (s\<lparr>closed := True\<rparr>)")
  then have "s1 = snd (flush io (s\<lparr>closed := True\<rparr>))" by simp
  then have fr: "closed s1" "header s1 = header s" "compressionAlgo s1 = compressionAlgo s"
    by simp_all
  have c: "close io closing s =
           (case r of
              Result success \<Rightarrow>
                (let s2 = (if success then s1\<lparr>currentPayload := None\<rparr> else s1)
                 in if closeDestinationFlag s2
                    then (closing, s2\<lparr>destination_closed := True\<rparr>)
                    else (Result success, s2))
            | Timeout \<Rightarrow> (Timeout, s1)
            | Error e \<Rightarrow> (Error e, s1))"
    using f by (simp add: close_flushes [OF assms])
  show "destination_chunks (snd (close io closing s)) =
           destination_chunks (snd (flush io (s\<lparr>closed := True\<rparr>)))"
    and "payloadSequenceNumber (snd (close io closing s)) =
           payloadSequenceNumber (snd (flush io (s\<lparr>closed := True\<rparr>)))"
    and "caching (snd (close io closing s)) = caching (snd (flush io (s\<lparr>closed := True\<rparr>)))"
    and "payloads (snd (close io closing s)) = payloads (snd (flush io (s\<lparr>closed := True\<rparr>)))"
    and "aborted (snd (close io closing s)) = aborted (snd (flush io (s\<lparr>closed := True\<rparr>)))"
    and "closed (snd (close io closing s))"
    and "header (snd (close io closing s)) = header s"
    and "compressionAlgo (snd (close io closing s)) = compressionAlgo s"
    and "currentPayload (snd (close io closing s)) =
           currentPayload (snd (flush io (s\<lparr>closed := True\<rparr>))) \<or>
         currentPayload (snd (close io closing s)) = None"
    unfolding c f using fr by (cases r; simp add: Let_def)+
qed

lemma close_good:
  assumes "is_Result (fst (close io closing s))" "\<not> aborted (snd (close io closing s))"
  shows "(closed s \<and> snd (close io closing s) = s) \<or>
         (\<not> closed s \<and> fst (flush io (s\<lparr>closed := True\<rparr>)) = Result True \<and>
          (\<exists>dc. snd (close io closing s) =
             (snd (flush io (s\<lparr>closed := True\<rparr>)))\<lparr>currentPayload := None, destination_closed := dc\<rparr>))"
proof (cases "aborted s \<or> timedout s \<or> errored s \<noteq> None \<or> closed s")
  case True
  then have s: "snd (close io closing s) = s" by (rule close_noop)
  with assms(2) have "\<not> aborted s" by simp
  with True assms(1) have "closed s" by (auto simp: close_def split: option.splits if_splits)
  with s show ?thesis by simp
next
  case False
  then have h: "\<not> aborted s" "\<not> timedout s" "errored s = None" "\<not> closed s" by auto
  obtain r s1 where f: "flush io (s\<lparr>closed := True\<rparr>) = (r, s1)"
    by (cases "flush io (s\<lparr>closed := True\<rparr>)")
  note fe = flush_effect [of io "s\<lparr>closed := True\<rparr>"]
  show ?thesis
  proof (cases r)
    case (Result success)
    show ?thesis
    proof (cases success)
      case True
      have "snd (close io closing s) =
              s1\<lparr>currentPayload := None,
                 destination_closed := (closeDestinationFlag s1 \<or> destination_closed s1)\<rparr>"
        using f Result True by (simp add: close_flushes [OF h] Let_def)
      then show ?thesis using f Result True h by auto
    next
      case False
      have c: "snd (close io closing s) =
              s1\<lparr>destination_closed := (closeDestinationFlag s1 \<or> destination_closed s1)\<rparr>"
        using f Result False by (simp add: close_flushes [OF h] Let_def)
      have "aborted s1" using fe f Result False by auto
      with c assms(2) show ?thesis by simp
    qed
  next
    case Timeout
    then show ?thesis using f assms(1) by (simp add: close_flushes [OF h])
  next
    case (Error e)
    then show ?thesis using f assms(1) by (simp add: close_flushes [OF h])
  qed
qed

lemma flush_then_set_state:
  "\<exists>algo'. snd (flush_then_set algo io s) = (snd (flush io s))\<lparr>compressionAlgo := algo'\<rparr> \<and>
     (algo' = compressionAlgo s \<or> algo' = algo \<and> fst (flush io s) = Result True)"
proof -
  obtain r s1 where f: "flush io s = (r, s1)" by (cases "flush io s")
  then have "compressionAlgo s1 = compressionAlgo s" using flush_frame(3) [of io s] by simp
  then have id: "s1 = s1\<lparr>compressionAlgo := compressionAlgo s\<rparr>" by simp
  show ?thesis
  proof (cases "r = Result True")
    case True
    then have "snd (flush_then_set algo io s) = s1\<lparr>compressionAlgo := algo\<rparr>"
      using f by (simp add: flush_then_set_def)
    then show ?thesis using f True by auto
  next
    case False
    then have "snd (flush_then_set algo io s) = s1"
      using f by (cases r) (auto simp: flush_then_set_def)
    then show ?thesis using f id by (metis snd_conv)
  qed
qed

lemma setCompressionAlgorithm_state:
  "snd (setCompressionAlgorithm algo io s) = s \<or>
   snd (setCompressionAlgorithm algo io s) = snd (flush_then_set algo io s)"
  by (simp add: setCompressionAlgorithm_def split: option.splits)

lemma setCompressionAlgorithm_good:
  assumes "is_Result (fst (setCompressionAlgorithm algo io s))"
  shows "snd (setCompressionAlgorithm algo io s) = s \<or>
         (fst (flush io s) = Result True \<and>
          snd (setCompressionAlgorithm algo io s) = (snd (flush io s))\<lparr>compressionAlgo := algo\<rparr>)"
proof -
  obtain r s1 where f: "flush io s = (r, s1)" by (cases "flush io s")
  have "is_Result (fst (flush_then_set algo io s)) \<Longrightarrow>
        r = Result True \<and> snd (flush_then_set algo io s) = s1\<lparr>compressionAlgo := algo\<rparr>"
    using f by (cases r) (auto simp: flush_then_set_def split: if_splits)
  then show ?thesis
    using assms f by (auto simp: setCompressionAlgorithm_def split: option.splits if_splits)
qed

lemma write_frame [simp]:
  "destination_chunks (snd (MessageOutputStream_write dat off len s)) = destination_chunks s"
  "payloadSequenceNumber (snd (MessageOutputStream_write dat off len s)) = payloadSequenceNumber s"
  "closed (snd (MessageOutputStream_write dat off len s)) = closed s"
  "header (snd (MessageOutputStream_write dat off len s)) = header s"
  "aborted (snd (MessageOutputStream_write dat off len s)) = aborted s"
  "caching (snd (MessageOutputStream_write dat off len s)) = caching s"
  "payloads (snd (MessageOutputStream_write dat off len s)) = payloads s"
  "compressionAlgo (snd (MessageOutputStream_write dat off len s)) = compressionAlgo s"
  by (simp_all add: MessageOutputStream_write_def Let_def split: option.splits prod.splits)

section \<open>Calls and sequences of calls\<close>

lemma snd_case_reply [simp]: "snd (case p of (r, s1) \<Rightarrow> (f r, s1)) = snd p"
  by (cases p) simp

lemma fst_case_reply [simp]: "fst (case p of (r, s1) \<Rightarrow> (f r, s1)) = f (fst p)"
  by (cases p) simp

lemma exec_aborted: "aborted s \<Longrightarrow> aborted (snd (exec c s))"
proof (cases c)
  case (Close io closing)
  assume "aborted s"
  then show ?thesis using Close by (simp add: close_def)
next
  case (SetCompressionAlgorithm algo io)
  assume a: "aborted s"
  obtain algo' where "snd (flush_then_set algo io s) = (snd (flush io s))\<lparr>compressionAlgo := algo'\<rparr>"
    using flush_then_set_state [of algo io s] by blast
  then have "aborted (snd (flush_then_set algo io s))" using flush_aborted [OF a, of io] by simp
  then show ?thesis
    using SetCompressionAlgorithm a setCompressionAlgorithm_state [of algo io s]
    by auto
qed (auto simp: flush_aborted async_step_aborted closeDestination_def)

lemma run_aborted: "aborted s \<Longrightarrow> aborted (run cs s)"
  by (induction cs arbitrary: s) (simp_all add: exec_aborted)

lemma exec_header [simp]: "header (snd (exec c s)) = header s"
proof (cases c)
  case (Close io closing)
  show ?thesis
  proof (cases "aborted s \<or> timedout s \<or> errored s \<noteq> None \<or> closed s")
    case True
    then show ?thesis using Close by (simp add: close_noop)
  next
    case False
    then show ?thesis using Close close_state(7) [of s io closing] by simp
  qed
next
  case (SetCompressionAlgorithm algo io)
  obtain algo' where "snd (flush_then_set algo io s) = (snd (flush io s))\<lparr>compressionAlgo := algo'\<rparr>"
    using flush_then_set_state [of algo io s] by blast
  then have "header (snd (flush_then_set algo io s)) = header s" by simp
  then show ?thesis
    using SetCompressionAlgorithm setCompressionAlgorithm_state [of algo io s]
    by auto
qed (auto simp: closeDestination_def)

lemma run_header [simp]: "header (run cs s) = header s"
  by (induction cs arbitrary: s) simp_all

lemma exec_closed: "closed s \<Longrightarrow> closed (snd (exec c s))"
proof (cases c)
  case (Close io closing)
  assume "closed s"
  then show ?thesis using Close by (simp add: close_noop)
next
  case (SetCompressionAlgorithm algo io)
  assume a: "closed s"
  obtain algo' where "snd (flush_then_set algo io s) = (snd (flush io s))\<lparr>compressionAlgo := algo'\<rparr>"
    using flush_then_set_state [of algo io s] by blast
  then have "closed (snd (flush_then_set algo io s))" using a by simp
  then show ?thesis
    using SetCompressionAlgorithm a setCompressionAlgorithm_state [of algo io s]
    by auto
qed (auto simp: closeDestination_def)

lemma run_closed: "closed s \<Longrightarrow> closed (run cs s)"
  by (induction cs arbitrary: s) (simp_all add: exec_closed)


section \<open>Caching\<close>

lemma close_cache_off:
  assumes "\<not> caching s \<and> payloads s = []"
  shows "\<not> caching (snd (close io closing s)) \<and> payloads (snd (close io closing s)) = []"
proof (cases "aborted s \<or> timedout s \<or> errored s \<noteq> None \<or> closed s")
  case True
  then show ?thesis using assms by (simp add: close_noop)
next
  case False
  have "\<not> caching (s\<lparr>closed := True\<rparr>) \<and> payloads (s\<lparr>closed := True\<rparr>) = []" using assms by simp
  then have "\<not> caching (snd (flush io (s\<lparr>closed := True\<rparr>))) \<and>
             payloads (snd (flush io (s\<lparr>closed := True\<rparr>))) = []"
    by (rule flush_cache_off)
  then show ?thesis using False close_state(3,4) [of s io closing] by simp
qed

lemma setCompressionAlgorithm_cache_off:
  assumes "\<not> caching s \<and> payloads s = []"
  shows "\<not> caching (snd (setCompressionAlgorithm algo io s)) \<and>
         payloads (snd (setCompressionAlgorithm algo io s)) = []"
proof -
  obtain algo' where "snd (flush_then_set algo io s) = (snd (flush io s))\<lparr>compressionAlgo := algo'\<rparr>"
    using flush_then_set_state [of algo io s] by blast
  then have "\<not> caching (snd (flush_then_set algo io s)) \<and> payloads (snd (flush_then_set algo io s)) = []"
    using flush_cache_off [OF assms, of io] by simp
  then show ?thesis using assms setCompressionAlgorithm_state [of algo io s] by auto
qed

lemma exec_cache_off:
  assumes "\<not> caching s \<and> payloads s = []"
  shows "\<not> caching (snd (exec c s)) \<and> payloads (snd (exec c s)) = []"
proof (cases c)
  case (Write dat off len)
  then show ?thesis using assms by simp
next
  case (Flush io)
  then show ?thesis using flush_cache_off [OF assms, of io] by simp
next
  case (Close io closing)
  then show ?thesis using close_cache_off [OF assms, of io closing] by simp
next
  case (SetCompressionAlgorithm algo io)
  then show ?thesis
    using setCompressionAlgorithm_cache_off [OF assms, of algo io] by simp
next
  case (CloseDestination b)
  then show ?thesis using assms by (simp add: closeDestination_def)
next
  case (Async e)
  then show ?thesis using async_step_cache_off [OF assms, of e] by simp
qed

lemma run_cache_off:
  "\<not> caching s \<and> payloads s = [] \<Longrightarrow> \<not> caching (run cs s) \<and> payloads (run cs s) = []"
  by (induction cs arbitrary: s) (simp_all add: exec_cache_off)

text \<open>While caching is on, every chunk handed to the destination is cached.\<close>

lemma async_step_caches:
  "e \<noteq> StopCachingCall \<Longrightarrow> caches s \<Longrightarrow> caches (async_step e s)"
  by (cases e; simp add: header_written_def header_flushed_def set_ready_def abort_def
      split: sink_write.splits sink_flush.splits)

lemma fold_async_caches:
  "StopCachingCall \<notin> set evs \<Longrightarrow> caches s \<Longrightarrow> caches (fold async_step evs s)"
proof (induction evs arbitrary: s)
  case Nil
  then show ?case by simp
next
  case (Cons e evs)
  then have "caches (async_step e s)" by (intro async_step_caches) auto
  then have "caches (fold async_step evs (async_step e s))"
    using Cons.prems by (intro Cons.IH) auto
  then show ?case by simp
qed

lemma poll_caches:
  "StopCachingCall \<notin> set evs \<Longrightarrow> caches s \<Longrightarrow> caches (snd (poll evs s))"
proof (induction evs arbitrary: s)
  case Nil
  then show ?case by (simp split: list.splits)
next
  case (Cons e evs)
  show ?case
  proof (cases "readyQueue s = [] \<and> e \<noteq> AbortCall")
    case True
    have "caches (async_step e s)" using Cons.prems by (intro async_step_caches) auto
    then have "caches (snd (poll evs (async_step e s)))"
      using Cons.prems by (intro Cons.IH) auto
    then show ?thesis using True by simp
  next
    case False
    then show ?thesis using Cons.prems(2) by (auto simp: abort_def split: list.splits)
  qed
qed

lemma flush_result_caches: "caches s \<Longrightarrow> caches (snd (flush_result b s))"
  by (simp add: flush_result_def)

lemma write_result_caches:
  assumes "StopCachingCall \<notin> set (during_flush io)" and "caches s"
  shows "caches (snd (write_result io k s))"
  using fold_async_caches [OF assms] assms(2)
  by (simp add: write_result_def Let_def flush_result_caches split: sink_flush.splits)

text \<open>The result callback of the chunk's creation puts the chunk into the cache.\<close>

lemma chunk_result_caches:
  assumes "StopCachingCall \<notin> set (during_write io)" and "StopCachingCall \<notin> set (during_flush io)"
    and "caches s"
  shows "caches (snd (chunk_result io c s))"
proof -
  let ?s2 = "s\<lparr>payloads := payloads s @ [c], destination_chunks := destination_chunks s @ [c]\<rparr>"
  let ?s3 = "fold async_step (during_write io) ?s2"
  have c: "caching s" using assms(3) by simp
  have "caches ?s2" using assms(3) by simp
  with assms(1) have 3: "caches ?s3"
    by (rule fold_async_caches)
  show ?thesis
  proof (cases "written io")
    case (NumWritten k)
    then have "chunk_result io c s = write_result io k ?s3"
      using c by (simp add: chunk_result_def Let_def)
    then show ?thesis using write_result_caches [OF assms(2) 3, of k] by simp
  next
    case WriteTimeout
    then have "snd (chunk_result io c s) = ?s3"
      using c by (simp add: chunk_result_def Let_def)
    then show ?thesis using 3 by simp
  next
    case (WriteError e)
    then have "snd (chunk_result io c s) = ?s3"
      using c by (simp add: chunk_result_def Let_def)
    then show ?thesis using 3 by simp
  qed
qed

lemma perform_caches:
  assumes "StopCachingCall \<notin> set (during_create io)" and "StopCachingCall \<notin> set (during_write io)"
    and "StopCachingCall \<notin> set (during_flush io)" and "caches s"
  shows "caches (snd (perform io s))"
proof -
  have 1: "caches (fold async_step (during_create io) s)"
    using assms(1,4) by (rule fold_async_caches)
  have 2: "caches (snd (chunk_result io c (fold async_step (during_create io) s)))" for c
    using assms(2,3) 1 by (rule chunk_result_caches)
  show ?thesis
    using assms(4) 1 2
    by (simp add: perform_def Let_def split: option.splits prod.splits)
qed

lemma flush_caches:
  assumes "StopCachingCall \<notin> set (io_events io)" and "caches s"
  shows "caches (snd (flush io s))"
proof -
  have e: "StopCachingCall \<notin> set (during_poll io)" "StopCachingCall \<notin> set (during_create io)"
    "StopCachingCall \<notin> set (during_write io)" "StopCachingCall \<notin> set (during_flush io)"
    using assms(1) by (simp_all add: io_events_def)
  obtain p s1 where p: "poll (during_poll io) s = (p, s1)" by (cases "poll (during_poll io) s")
  have s1: "caches s1" using poll_caches [OF e(1) assms(2)] p by simp
  have "caches (snd (perform io s1))" using e(2,3,4) s1 by (rule perform_caches)
  moreover have "caches (snd (perform io s))" using e(2,3,4) assms(2) by (rule perform_caches)
  ultimately show ?thesis
    using p s1 by (cases p) (simp_all add: flush_def split: poll_end.splits)
qed

lemma close_caches:
  assumes "StopCachingCall \<notin> set (io_events io)" and "caches s"
  shows "caches (snd (close io closing s))"
proof (cases "aborted s \<or> timedout s \<or> errored s \<noteq> None \<or> closed s")
  case True
  then have "snd (close io closing s) = s" by (rule close_noop)
  then show ?thesis using assms(2) by simp
next
  case False
  have "caches (s\<lparr>closed := True\<rparr>)" using assms(2) by simp
  with assms(1) have "caches (snd (flush io (s\<lparr>closed := True\<rparr>)))" by (rule flush_caches)
  then show ?thesis using False close_state(1,3,4) [of s io closing] by simp
qed

lemma setCompressionAlgorithm_caches:
  assumes "StopCachingCall \<notin> set (io_events io)" and "caches s"
  shows "caches (snd (setCompressionAlgorithm algo io s))"
proof -
  obtain algo' where "snd (flush_then_set algo io s) = (snd (flush io s))\<lparr>compressionAlgo := algo'\<rparr>"
    using flush_then_set_state [of algo io s] by blast
  then have "caches (snd (flush_then_set algo io s))"
    using flush_caches [OF assms] by simp
  then show ?thesis using assms(2) setCompressionAlgorithm_state [of algo io s] by auto
qed

lemma exec_caches:
  assumes "StopCachingCall \<notin> set (call_events c)" and "caches s"
  shows "caches (snd (exec c s))"
proof (cases c)
  case (Write dat off len)
  then show ?thesis using assms(2) by simp
next
  case (Flush io)
  then show ?thesis using flush_caches [of io s] assms by simp
next
  case (Close io closing)
  then show ?thesis using close_caches [of io s closing] assms by simp
next
  case (SetCompressionAlgorithm algo io)
  then show ?thesis using setCompressionAlgorithm_caches [of io s algo] assms by simp
next
  case (CloseDestination b)
  then show ?thesis using assms(2) by (simp add: closeDestination_def)
next
  case (Async e)
  then show ?thesis using async_step_caches [of e s] assms by simp
qed

lemma run_caches:
  "StopCachingCall \<notin> set (concat (map call_events cs)) \<Longrightarrow> caches s \<Longrightarrow> caches (run cs s)"
proof (induction cs arbitrary: s)
  case Nil
  then show ?case by simp
next
  case (Cons c cs)
  have "caches (snd (exec c s))" using Cons.prems by (intro exec_caches) auto
  then have "caches (run cs (snd (exec c s)))" using Cons.prems by (intro Cons.IH) auto
  then show ?case by simp
qed

text \<open>
  C10. Caching is on in a new stream and its cache is empty; as long as
  \<^verbatim>\<open>stopCaching()\<close> is not called, \<^verbatim>\<open>getPayloads()\<close> returns exactly the chunks
  handed to the destination so far, in order: every chunk is cached when it is emitted.
  After \<^verbatim>\<open>stopCaching()\<close> the list of cached payloads is empty at once, and it is
  empty after every sequence of calls and events that follows, whatever their
  environment does: no later chunk is cached.
\<close>

theorem stopCaching_empties_cache:
  "caching (MessageOutputStream_init getPreferredAlgorithm caps hdr hdrLength) \<and>
   getPayloads (MessageOutputStream_init getPreferredAlgorithm caps hdr hdrLength) = [] \<and>
   (StopCachingCall \<notin> set (concat (map call_events cs)) \<longrightarrow>
      getPayloads (run cs (MessageOutputStream_init getPreferredAlgorithm caps hdr hdrLength)) =
        destination_chunks (run cs (MessageOutputStream_init getPreferredAlgorithm caps hdr hdrLength))) \<and>
   getPayloads (stopCaching s) = [] \<and>
   getPayloads (run cs' (stopCaching s)) = []"
proof -
  have "\<not> caching (stopCaching s) \<and> payloads (stopCaching s) = []"
    by (simp add: stopCaching_def)
  then have 1: "payloads (run cs' (stopCaching s)) = []"
    using run_cache_off by blast
  have "caches (MessageOutputStream_init getPreferredAlgorithm caps hdr hdrLength)"
    by (simp add: MessageOutputStream_init_def)
  then have 2: "StopCachingCall \<notin> set (concat (map call_events cs)) \<Longrightarrow>
      caches (run cs (MessageOutputStream_init getPreferredAlgorithm caps hdr hdrLength))"
    by (rule run_caches [rotated])
  show ?thesis
    using 1 2 by (simp add: MessageOutputStream_init_def getPayloads_def stopCaching_def)
qed

theorem stopCaching_empties_cache_witness:
  "StopCachingCall \<notin> set (concat (map call_events (header_sent @ [Write [1] 0 1, Flush io_ok]))) \<and>
   getPayloads (run (header_sent @ [Write [1] 0 1, Flush io_ok]) new_stream) =
     [\<lparr>sequenceNumber = 1, messageId = 1, endofmsg = False, chunkCompressionAlgo = Some LZW,
        data = [1]\<rparr>] \<and>
   getPayloads (run [Write [2] 0 1, Flush io_ok]
       (stopCaching (run (header_sent @ [Write [1] 0 1, Flush io_ok]) new_stream))) = []"
  using stopCaching_empties_cache [of example_preferred "Some [LZW]" "MessageHeader 1 False" 10
      "header_sent @ [Write [1] 0 1, Flush io_ok]"
      "run (header_sent @ [Write [1] 0 1, Flush io_ok]) new_stream" "[Write [2] 0 1, Flush io_ok]"]
  by (simp add: eval_more getPayloads_def)


section \<open>Sequence numbers\<close>

lemma no_gaps_snoc:
  "no_gaps p (xs @ [x]) = (no_gaps p xs \<and> (x = last (p # xs) \<or> x = Suc (last (p # xs))))"
  by (induction xs arbitrary: p) auto

lemma numbered_from_snoc:
  "numbered_from n (xs @ [x]) =
     (if xs = [] then x = n else numbered_from n xs \<and> (x = last xs \<or> x = Suc (last xs)))"
  by (cases xs) (auto simp: no_gaps_snoc)

lemma flush_may_counting:
  assumes "flush_may r s s'" and "counting s"
  shows "counting s'"
  using assms by (auto simp: emitted_numbers_def numbered_from_snoc)

lemma flush_may_counted:
  assumes "flush_may r s s'" and "r = Result True" and "counted s"
  shows "counted s'"
  using assms by (auto simp: emitted_numbers_def)

lemma flush_may_good:
  assumes "flush_may r s s'" and "is_Result r" and "\<not> aborted s'"
  shows "r = Result True"
  using assms by (cases r) auto


lemma close_counting:
  assumes "counting s"
  shows "counting (snd (close io closing s))"
proof (cases "aborted s \<or> timedout s \<or> errored s \<noteq> None \<or> closed s")
  case True
  then show ?thesis using assms by (simp add: close_noop)
next
  case False
  let ?sc = "s\<lparr>closed := True\<rparr>"
  have "counting ?sc" using assms by (simp add: emitted_numbers_def)
  with flush_effect [of io ?sc] have "counting (snd (flush io ?sc))"
    by (rule flush_may_counting)
  then show ?thesis
    using False close_state(1,2) [of s io closing] by (simp add: emitted_numbers_def)
qed

lemma setCompressionAlgorithm_counting:
  assumes "counting s"
  shows "counting (snd (setCompressionAlgorithm algo io s))"
proof -
  obtain algo' where "snd (flush_then_set algo io s) = (snd (flush io s))\<lparr>compressionAlgo := algo'\<rparr>"
    using flush_then_set_state [of algo io s] by blast
  moreover have "counting (snd (flush io s))"
    using flush_effect [of io s] assms by (rule flush_may_counting)
  ultimately have "counting (snd (flush_then_set algo io s))"
    by (simp add: emitted_numbers_def)
  then show ?thesis using assms setCompressionAlgorithm_state [of algo io s] by auto
qed

lemma exec_counting:
  assumes "counting s"
  shows "counting (snd (exec c s))"
proof (cases c)
  case (Write dat off len)
  then show ?thesis using assms by (simp add: emitted_numbers_def)
next
  case (Flush io)
  have "counting (snd (flush io s))"
    using flush_effect [of io s] assms by (rule flush_may_counting)
  then show ?thesis using Flush by simp
next
  case (Close io closing)
  then show ?thesis using close_counting [OF assms, of io closing] by simp
next
  case (SetCompressionAlgorithm algo io)
  then show ?thesis using setCompressionAlgorithm_counting [OF assms, of algo io] by simp
next
  case (CloseDestination b)
  then show ?thesis using assms by (simp add: closeDestination_def emitted_numbers_def)
next
  case (Async e)
  then show ?thesis using assms by (simp add: emitted_numbers_def)
qed

lemma run_counting: "counting s \<Longrightarrow> counting (run cs s)"
proof (induction cs arbitrary: s)
  case Nil
  then show ?case by simp
next
  case (Cons c cs)
  from Cons.prems have "counting (snd (exec c s))" by (rule exec_counting)
  then have "counting (run cs (snd (exec c s)))" by (rule Cons.IH)
  then show ?case by simp
qed

lemma exec_counted:
  assumes "counted s" and "good c s"
  shows "counted (snd (exec c s))"
proof (cases c)
  case (Write dat off len)
  then show ?thesis using assms by (simp add: emitted_numbers_def)
next
  case (Flush io)
  have "is_Result (fst (flush io s))" "\<not> aborted (snd (flush io s))"
    using assms(2) Flush by (cases "fst (flush io s)"; simp)+
  with flush_effect [of io s] have "fst (flush io s) = Result True" by (rule flush_may_good)
  with flush_effect [of io s] have "counted (snd (flush io s))"
    using assms(1) by (rule flush_may_counted)
  then show ?thesis using Flush by simp
next
  case (Close io closing)
  let ?sc = "s\<lparr>closed := True\<rparr>"
  have g: "is_Result (fst (close io closing s))" "\<not> aborted (snd (close io closing s))"
    using assms(2) Close by (cases "fst (close io closing s)"; simp)+
  have c: "counted ?sc" using assms(1) by (simp add: emitted_numbers_def)
  from close_good [OF g] show ?thesis
  proof
    assume "closed s \<and> snd (close io closing s) = s"
    then show ?thesis using Close assms(1) by simp
  next
    assume a: "\<not> closed s \<and> fst (flush io ?sc) = Result True \<and>
        (\<exists>dc. snd (close io closing s) =
           (snd (flush io ?sc))\<lparr>currentPayload := None, destination_closed := dc\<rparr>)"
    then have "counted (snd (flush io ?sc))"
      using flush_may_counted [OF flush_effect [of io ?sc] _ c] by blast
    then show ?thesis using a Close by (auto simp: emitted_numbers_def)
  qed
next
  case (SetCompressionAlgorithm algo io)
  have g: "is_Result (fst (setCompressionAlgorithm algo io s))"
    using assms(2) SetCompressionAlgorithm
    by (cases "fst (setCompressionAlgorithm algo io s)"; simp)
  from setCompressionAlgorithm_good [OF g] show ?thesis
  proof
    assume "snd (setCompressionAlgorithm algo io s) = s"
    then show ?thesis using SetCompressionAlgorithm assms(1) by simp
  next
    assume a: "fst (flush io s) = Result True \<and>
        snd (setCompressionAlgorithm algo io s) = (snd (flush io s))\<lparr>compressionAlgo := algo\<rparr>"
    then have "counted (snd (flush io s))"
      using flush_may_counted [OF flush_effect [of io s] _ assms(1)] by blast
    then show ?thesis using a SetCompressionAlgorithm by (simp add: emitted_numbers_def)
  qed
next
  case (CloseDestination b)
  then show ?thesis using assms by (simp add: closeDestination_def emitted_numbers_def)
next
  case (Async e)
  then show ?thesis using assms by (simp add: emitted_numbers_def)
qed

lemma run_counted:
  assumes "counted s" and "list_all is_Result (replies cs s)" and "\<not> aborted (run cs s)"
  shows "counted (run cs s)"
  using assms
proof (induction cs arbitrary: s)
  case Nil
  then show ?case by simp
next
  case (Cons c cs)
  have "\<not> aborted (snd (exec c s))"
    using Cons.prems(3) run_aborted [of "snd (exec c s)" cs] by auto
  with Cons.prems(2) have "good c s" by simp
  with Cons.prems(1) have "counted (snd (exec c s))" by (rule exec_counted)
  then have "counted (run cs (snd (exec c s)))"
    using Cons.prems by (intro Cons.IH) simp_all
  then show ?case by simp
qed

lemma init_counted: "counted (MessageOutputStream_init getPreferredAlgorithm caps hdr hdrLength)"
  by (simp add: MessageOutputStream_init_def emitted_numbers_def)

lemma init_counting: "counting (MessageOutputStream_init getPreferredAlgorithm caps hdr hdrLength)"
  by (simp add: MessageOutputStream_init_def emitted_numbers_def)

text \<open>
  C3, as the code has it. The sequence numbers of the chunks a stream hands to its
  destination, in order and across any calls and events, start at 1 and never decrease
  or skip a number: each is its predecessor or one more. When every call of the sequence
  ends in a result and the stream is not aborted, they are exactly 1, 2, 3, ... up to
  the counter. (A number is repeated when the destination's write or flush of a chunk
  did not complete and the flush is called again.)
\<close>

theorem sequence_numbers:
  "numbered_from 1 (emitted_numbers (run cs (MessageOutputStream_init getPreferredAlgorithm caps hdr hdrLength))) \<and>
   (list_all is_Result (replies cs (MessageOutputStream_init getPreferredAlgorithm caps hdr hdrLength)) \<and>
    \<not> aborted (run cs (MessageOutputStream_init getPreferredAlgorithm caps hdr hdrLength)) \<longrightarrow>
    emitted_numbers (run cs (MessageOutputStream_init getPreferredAlgorithm caps hdr hdrLength)) =
      [1..<payloadSequenceNumber (run cs (MessageOutputStream_init getPreferredAlgorithm caps hdr hdrLength))])"
  using run_counting [OF init_counting, of cs getPreferredAlgorithm caps hdr hdrLength]
    run_counted [OF init_counted, of cs getPreferredAlgorithm caps hdr hdrLength]
  by blast


theorem sequence_numbers_witness:
  "list_all is_Result
     (replies (header_sent @ [Write [1] 0 1, Flush io_ok, Close io_ok (Result True)]) new_stream) \<and>
   \<not> aborted (run (header_sent @ [Write [1] 0 1, Flush io_ok, Close io_ok (Result True)]) new_stream) \<and>
   emitted_numbers (run (header_sent @ [Write [1] 0 1, Flush io_ok, Close io_ok (Result True)]) new_stream)
     = [1, 2]"
  using sequence_numbers [of "header_sent @ [Write [1] 0 1, Flush io_ok, Close io_ok (Result True)]"
      example_preferred "Some [LZW]" "MessageHeader 1 False" 10]
  by (simp add: eval_defs)

text \<open>
  The claim as stated fails: one byte is written and flushed, the destination takes the
  chunk and then reports that its flush did not succeed, and the flush is called again.
  Two chunks were handed to the destination, both with the sequence number 1.
\<close>

theorem sequence_numbers_counterexample:
  "replies (header_sent @ [Write [1] 0 1, Flush io_flush_fails, Flush io_ok]) new_stream
     = [Result JUndefined, Result JUndefined, Result (JNum 1), Timeout, Result (JBool True)] \<and>
   emitted_numbers (run (header_sent @ [Write [1] 0 1, Flush io_flush_fails, Flush io_ok]) new_stream)
     = [1, 1]"
  by (simp add: eval_defs)


section \<open>The end-of-message flag\<close>

lemma flags_last_snoc:
  "flags_last (bs @ [b]) = (flags_last bs \<and> (b \<or> list_all (\<lambda>x. \<not> x) bs))"
  by (induction bs) auto

lemma flush_may_flags:
  assumes "flush_may r s s'" and "closed s' = closed s"
    and "flags_last (map endofmsg (destination_chunks s)) \<and>
         (\<not> closed s \<longrightarrow> list_all (\<lambda>c. \<not> endofmsg c) (destination_chunks s))"
  shows "flags_last (map endofmsg (destination_chunks s')) \<and>
         (\<not> closed s' \<longrightarrow> list_all (\<lambda>c. \<not> endofmsg c) (destination_chunks s'))"
  using assms by (auto simp: flags_last_snoc list_all_iff)

lemma exec_flags:
  assumes "flags_last (map endofmsg (destination_chunks s)) \<and>
         (\<not> closed s \<longrightarrow> list_all (\<lambda>c. \<not> endofmsg c) (destination_chunks s))"
  shows "flags_last (map endofmsg (destination_chunks (snd (exec c s)))) \<and>
         (\<not> closed (snd (exec c s)) \<longrightarrow>
            list_all (\<lambda>c. \<not> endofmsg c) (destination_chunks (snd (exec c s))))"
proof (cases c)
  case (Write dat off len)
  then show ?thesis using assms by simp
next
  case (Flush io)
  then show ?thesis
    using flush_may_flags [OF flush_effect [of io s] _ assms] by simp
next
  case (Close io closing)
  show ?thesis
  proof (cases "aborted s \<or> timedout s \<or> errored s \<noteq> None \<or> closed s")
    case True
    then have "snd (close io closing s) = s" by (rule close_noop)
    then show ?thesis using assms Close by simp
  next
    case False
    let ?sc = "s\<lparr>closed := True\<rparr>"
    have "flags_last (map endofmsg (destination_chunks ?sc)) \<and>
         (\<not> closed ?sc \<longrightarrow> list_all (\<lambda>c. \<not> endofmsg c) (destination_chunks ?sc))"
      using assms by simp
    from flush_may_flags [OF flush_effect [of io ?sc] _ this]
    have "flags_last (map endofmsg (destination_chunks (snd (flush io ?sc))))" by simp
    then show ?thesis
      using False Close close_state(1,6) [of s io closing] by simp
  qed
next
  case (SetCompressionAlgorithm algo io)
  obtain algo' where "snd (flush_then_set algo io s) = (snd (flush io s))\<lparr>compressionAlgo := algo'\<rparr>"
    using flush_then_set_state [of algo io s] by blast
  then have "flags_last (map endofmsg (destination_chunks (snd (flush_then_set algo io s)))) \<and>
         (\<not> closed (snd (flush_then_set algo io s)) \<longrightarrow>
            list_all (\<lambda>c. \<not> endofmsg c) (destination_chunks (snd (flush_then_set algo io s))))"
    using flush_may_flags [OF flush_effect [of io s] _ assms] by simp
  then show ?thesis
    using SetCompressionAlgorithm assms setCompressionAlgorithm_state [of algo io s] by auto
next
  case (CloseDestination b)
  then show ?thesis using assms by (simp add: closeDestination_def)
next
  case (Async e)
  then show ?thesis using assms by simp
qed

lemma run_flags:
  assumes "flags_last (map endofmsg (destination_chunks s)) \<and>
         (\<not> closed s \<longrightarrow> list_all (\<lambda>c. \<not> endofmsg c) (destination_chunks s))"
  shows "flags_last (map endofmsg (destination_chunks (run cs s)))"
  using assms
proof (induction cs arbitrary: s)
  case Nil
  then show ?case by simp
next
  case (Cons c cs)
  from exec_flags [OF Cons.prems, of c] have "flags_last (map endofmsg (destination_chunks (run cs (snd (exec c s)))))"
    by (rule Cons.IH)
  then show ?case by simp
qed

text \<open>Once the current payload is null nothing more is handed to the destination.\<close>

lemma write_payload_null:
  "currentPayload s = None \<Longrightarrow> currentPayload (snd (MessageOutputStream_write dat off len s)) = None"
  by (simp add: MessageOutputStream_write_def Let_def split: option.splits prod.splits)

lemma flush_may_null:
  assumes "flush_may r s s'" and "currentPayload s = None"
  shows "currentPayload s' = None \<and> destination_chunks s' = destination_chunks s"
  using assms by auto

lemma exec_payload_null:
  assumes "currentPayload s = None"
  shows "currentPayload (snd (exec c s)) = None \<and>
         destination_chunks (snd (exec c s)) = destination_chunks s"
proof (cases c)
  case (Write dat off len)
  then show ?thesis using assms by (simp add: write_payload_null)
next
  case (Flush io)
  then show ?thesis using flush_may_null [OF flush_effect [of io s] assms] by simp
next
  case (Close io closing)
  show ?thesis
  proof (cases "aborted s \<or> timedout s \<or> errored s \<noteq> None \<or> closed s")
    case True
    then have "snd (close io closing s) = s" by (rule close_noop)
    then show ?thesis using assms Close by simp
  next
    case False
    let ?sc = "s\<lparr>closed := True\<rparr>"
    have "currentPayload ?sc = None" using assms by simp
    from flush_may_null [OF flush_effect [of io ?sc] this]
    show ?thesis using False Close close_state(1,9) [of s io closing] by auto
  qed
next
  case (SetCompressionAlgorithm algo io)
  obtain algo' where "snd (flush_then_set algo io s) = (snd (flush io s))\<lparr>compressionAlgo := algo'\<rparr>"
    using flush_then_set_state [of algo io s] by blast
  then have "currentPayload (snd (flush_then_set algo io s)) = None \<and>
         destination_chunks (snd (flush_then_set algo io s)) = destination_chunks s"
    using flush_may_null [OF flush_effect [of io s] assms] by simp
  then show ?thesis
    using SetCompressionAlgorithm assms setCompressionAlgorithm_state [of algo io s] by auto
next
  case (CloseDestination b)
  then show ?thesis using assms by (simp add: closeDestination_def)
next
  case (Async e)
  then show ?thesis using assms by simp
qed

lemma run_payload_null:
  "currentPayload s = None \<Longrightarrow> destination_chunks (run cs s) = destination_chunks s"
proof (induction cs arbitrary: s)
  case Nil
  then show ?case by simp
next
  case (Cons c cs)
  from exec_payload_null [OF Cons.prems, of c] Cons.IH [of "snd (exec c s)"]
  show ?case by simp
qed


text \<open>Runs in which every call ends in a result and the stream is not aborted.\<close>

lemma write_good:
  assumes "is_Result (fst (MessageOutputStream_write dat off len s))"
    and "\<not> aborted (snd (MessageOutputStream_write dat off len s))"
  shows "\<not> closed s \<and>
         (\<exists>segments. currentPayload s = Some segments \<and>
            currentPayload (snd (MessageOutputStream_write dat off len s)) =
              Some (segments @ [take (nat len) (drop (nat off) dat)]))"
  using assms
  by (auto simp: MessageOutputStream_write_def Let_def split: option.splits if_splits prod.splits)

lemma flush_may_one_end:
  assumes "flush_may r s s'" and "r = Result True" and "closed s' = closed s"
    and "header s = MessageHeader mid False" and "one_end s"
  shows "one_end s'"
  using assms by (auto split: if_splits)

lemma flush_may_closing:
  assumes "flush_may r (s\<lparr>closed := True\<rparr>) s'" and "r = Result True"
    and "header s = MessageHeader mid False" and "currentPayload s = Some segments"
  shows "destination_chunks s' =
           destination_chunks s @ [(next_chunk s mid segments)\<lparr>endofmsg := True\<rparr>]"
  using assms by auto

lemma exec_one_end:
  assumes "one_end s" and "header s = MessageHeader mid False" and "good c s"
  shows "one_end (snd (exec c s))"
proof (cases c)
  case (Write dat off len)
  then have "is_Result (fst (MessageOutputStream_write dat off len s))"
    "\<not> aborted (snd (MessageOutputStream_write dat off len s))"
    using assms(3) by simp_all
  from write_good [OF this] show ?thesis using assms(1) Write by auto
next
  case (Flush io)
  have "is_Result (fst (flush io s))" "\<not> aborted (snd (flush io s))"
    using assms(3) Flush by (cases "fst (flush io s)"; simp)+
  with flush_effect [of io s] have "fst (flush io s) = Result True" by (rule flush_may_good)
  from flush_may_one_end [OF flush_effect [of io s] this _ assms(2,1)]
  show ?thesis using Flush by simp
next
  case (Close io closing)
  let ?sc = "s\<lparr>closed := True\<rparr>"
  have g: "is_Result (fst (close io closing s))" "\<not> aborted (snd (close io closing s))"
    using assms(3) Close by (cases "fst (close io closing s)"; simp)+
  from close_good [OF g] show ?thesis
  proof
    assume "closed s \<and> snd (close io closing s) = s"
    then show ?thesis using Close assms(1) by simp
  next
    assume a: "\<not> closed s \<and> fst (flush io ?sc) = Result True \<and>
        (\<exists>dc. snd (close io closing s) =
           (snd (flush io ?sc))\<lparr>currentPayload := None, destination_closed := dc\<rparr>)"
    then obtain segments where seg: "currentPayload s = Some segments"
      using assms(1) by auto
    have r: "fst (flush io ?sc) = Result True" using a by simp
    have "destination_chunks (snd (flush io ?sc)) =
            destination_chunks s @ [(next_chunk s mid segments)\<lparr>endofmsg := True\<rparr>]"
      by (rule flush_may_closing [OF flush_effect [of io ?sc] r assms(2) seg])
    moreover have "closed (snd (flush io ?sc))" by simp
    ultimately show ?thesis using a Close assms(1) by auto
  qed
next
  case (SetCompressionAlgorithm algo io)
  have g: "is_Result (fst (setCompressionAlgorithm algo io s))"
    using assms(3) SetCompressionAlgorithm
    by (cases "fst (setCompressionAlgorithm algo io s)"; simp)
  from setCompressionAlgorithm_good [OF g] show ?thesis
  proof
    assume "snd (setCompressionAlgorithm algo io s) = s"
    then show ?thesis using SetCompressionAlgorithm assms(1) by simp
  next
    assume a: "fst (flush io s) = Result True \<and>
        snd (setCompressionAlgorithm algo io s) = (snd (flush io s))\<lparr>compressionAlgo := algo\<rparr>"
    then have r: "fst (flush io s) = Result True" by simp
    from flush_may_one_end [OF flush_effect [of io s] r _ assms(2,1)]
    have "one_end (snd (flush io s))" by simp
    then show ?thesis using a SetCompressionAlgorithm by simp
  qed
next
  case (CloseDestination b)
  then show ?thesis using assms(1) by (simp add: closeDestination_def)
next
  case (Async e)
  then show ?thesis using assms(1) by simp
qed

lemma run_one_end:
  assumes "one_end s" and "header s = MessageHeader mid False"
    and "list_all is_Result (replies cs s)" and "\<not> aborted (run cs s)"
  shows "one_end (run cs s)"
  using assms
proof (induction cs arbitrary: s)
  case Nil
  then show ?case by simp
next
  case (Cons c cs)
  have "\<not> aborted (snd (exec c s))"
    using Cons.prems(4) run_aborted [of "snd (exec c s)" cs] by auto
  with Cons.prems(3) have "good c s" by simp
  with Cons.prems(1,2) have "one_end (snd (exec c s))" by (rule exec_one_end)
  then have "one_end (run cs (snd (exec c s)))"
    using Cons.prems by (intro Cons.IH) simp_all
  then show ?case by simp
qed

lemma exec_good_close:
  assumes "good c s" and "is_Close c"
  shows "closed (snd (exec c s))"
proof -
  from assms(2) obtain io closing where c: "c = Close io closing" by (cases c) simp_all
  have g: "is_Result (fst (close io closing s))" "\<not> aborted (snd (close io closing s))"
    using assms(1) c by (cases "fst (close io closing s)"; simp)+
  from close_good [OF g] show ?thesis using c by auto
qed

lemma run_good_close:
  assumes "list_all is_Result (replies cs s)" and "\<not> aborted (run cs s)"
    and "list_ex is_Close cs"
  shows "closed (run cs s)"
  using assms
proof (induction cs arbitrary: s)
  case Nil
  then show ?case by simp
next
  case (Cons c cs)
  have na: "\<not> aborted (snd (exec c s))"
    using Cons.prems(2) run_aborted [of "snd (exec c s)" cs] by auto
  show ?case
  proof (cases "is_Close c")
    case True
    with Cons.prems(1) na have "closed (snd (exec c s))" by (intro exec_good_close) simp_all
    then show ?thesis by (simp add: run_closed)
  next
    case False
    then have "list_ex is_Close cs" using Cons.prems(3) by simp
    then show ?thesis using Cons.prems by (simp add: Cons.IH)
  qed
qed

lemma filter_last_only:
  assumes "xs \<noteq> []" and "P (last xs)" and "list_all (\<lambda>x. \<not> P x) (butlast xs)"
  shows "filter P xs = [last xs]"
proof -
  have "xs = butlast xs @ [last xs]" using assms(1) by simp
  then have "filter P xs = filter P (butlast xs) @ filter P [last xs]"
    by (metis filter_append)
  then show ?thesis using assms(2,3) by (simp add: list_all_iff)
qed


lemma flush_may_only_end:
  assumes "flush_may r s s'" and "r = Result True" and "closed s' = closed s" and "only_end s"
  shows "only_end s'"
  using assms by (auto split: if_splits)

lemma exec_only_end:
  assumes "only_end s" and "header s = MessageHeader mid False" and "good c s" and "\<not> is_Write c"
  shows "only_end (snd (exec c s))"
proof (cases c)
  case (Write dat off len)
  then show ?thesis using assms(4) by simp
next
  case (Flush io)
  have "is_Result (fst (flush io s))" "\<not> aborted (snd (flush io s))"
    using assms(3) Flush by (cases "fst (flush io s)"; simp)+
  with flush_effect [of io s] have "fst (flush io s) = Result True" by (rule flush_may_good)
  from flush_may_only_end [OF flush_effect [of io s] this _ assms(1)]
  show ?thesis using Flush by simp
next
  case (Close io closing)
  let ?sc = "s\<lparr>closed := True\<rparr>"
  have g: "is_Result (fst (close io closing s))" "\<not> aborted (snd (close io closing s))"
    using assms(3) Close by (cases "fst (close io closing s)"; simp)+
  from close_good [OF g] show ?thesis
  proof
    assume "closed s \<and> snd (close io closing s) = s"
    then show ?thesis using Close assms(1) by simp
  next
    assume a: "\<not> closed s \<and> fst (flush io ?sc) = Result True \<and>
        (\<exists>dc. snd (close io closing s) =
           (snd (flush io ?sc))\<lparr>currentPayload := None, destination_closed := dc\<rparr>)"
    then have seg: "currentPayload s = Some []" and e: "destination_chunks s = []"
      and n: "payloadSequenceNumber s = 1"
      using assms(1) by auto
    have r: "fst (flush io ?sc) = Result True" using a by simp
    have "destination_chunks (snd (flush io ?sc)) =
            destination_chunks s @ [(next_chunk s mid [])\<lparr>endofmsg := True\<rparr>]"
      by (rule flush_may_closing [OF flush_effect [of io ?sc] r assms(2) seg])
    moreover have "closed (snd (flush io ?sc))" by simp
    ultimately show ?thesis using a Close e n by auto
  qed
next
  case (SetCompressionAlgorithm algo io)
  have g: "is_Result (fst (setCompressionAlgorithm algo io s))"
    using assms(3) SetCompressionAlgorithm
    by (cases "fst (setCompressionAlgorithm algo io s)"; simp)
  from setCompressionAlgorithm_good [OF g] show ?thesis
  proof
    assume "snd (setCompressionAlgorithm algo io s) = s"
    then show ?thesis using SetCompressionAlgorithm assms(1) by simp
  next
    assume a: "fst (flush io s) = Result True \<and>
        snd (setCompressionAlgorithm algo io s) = (snd (flush io s))\<lparr>compressionAlgo := algo\<rparr>"
    then have r: "fst (flush io s) = Result True" by simp
    from flush_may_only_end [OF flush_effect [of io s] r _ assms(1)]
    have "only_end (snd (flush io s))" by simp
    then show ?thesis using a SetCompressionAlgorithm by simp
  qed
next
  case (CloseDestination b)
  then show ?thesis using assms(1) by (simp add: closeDestination_def)
next
  case (Async e)
  then show ?thesis using assms(1) by simp
qed

lemma run_only_end:
  assumes "only_end s" and "header s = MessageHeader mid False"
    and "list_all is_Result (replies cs s)" and "\<not> aborted (run cs s)"
    and "\<not> list_ex is_Write cs"
  shows "only_end (run cs s)"
  using assms
proof (induction cs arbitrary: s)
  case Nil
  then show ?case by simp
next
  case (Cons c cs)
  have "\<not> aborted (snd (exec c s))"
    using Cons.prems(4) run_aborted [of "snd (exec c s)" cs] by auto
  with Cons.prems(3) have "good c s" by simp
  moreover have "\<not> is_Write c" using Cons.prems(5) by simp
  ultimately have "only_end (snd (exec c s))"
    using Cons.prems(1,2) by (intro exec_only_end) simp_all
  then have "only_end (run cs (snd (exec c s)))"
    using Cons.prems by (intro Cons.IH) simp_all
  then show ?case by simp
qed

lemma init_flags:
  "flags_last (map endofmsg (destination_chunks (MessageOutputStream_init g caps hdr n))) \<and>
   (\<not> closed (MessageOutputStream_init g caps hdr n) \<longrightarrow>
      list_all (\<lambda>c. \<not> endofmsg c) (destination_chunks (MessageOutputStream_init g caps hdr n)))"
  by (simp add: MessageOutputStream_init_def)

lemma init_one_end: "one_end (MessageOutputStream_init g caps hdr n)"
  by (simp add: MessageOutputStream_init_def)

lemma init_only_end: "only_end (MessageOutputStream_init g caps hdr n)"
  by (simp add: MessageOutputStream_init_def)

lemma init_header: "header (MessageOutputStream_init g caps hdr n) = hdr"
  by (simp add: MessageOutputStream_init_def)

text \<open>
  C4, as the code has it. (1) In every run the chunks flagged end-of-message come last:
  once a flagged chunk was handed to the destination, only flagged chunks follow. (2)
  Once the final flush has completed (the current payload is null) nothing more is handed
  to the destination. (3) On a stream with a data-bearing message header, when
  \<^verbatim>\<open>close\<close> was called, every call ended in a result and the stream is not aborted,
  exactly one chunk is flagged and it is the last one; if moreover nothing was written,
  it is the only chunk, with sequence number 1 and no data.
\<close>

theorem end_of_message:
  "flags_last (map endofmsg (destination_chunks (run cs (MessageOutputStream_init g caps hdr n)))) \<and>
   (currentPayload s = None \<longrightarrow> destination_chunks (run cs' s) = destination_chunks s) \<and>
   (list_all is_Result (replies cs (MessageOutputStream_init g caps (MessageHeader mid False) n)) \<and>
    \<not> aborted (run cs (MessageOutputStream_init g caps (MessageHeader mid False) n)) \<and>
    list_ex is_Close cs \<longrightarrow>
      destination_chunks (run cs (MessageOutputStream_init g caps (MessageHeader mid False) n)) \<noteq> [] \<and>
      filter endofmsg (destination_chunks (run cs (MessageOutputStream_init g caps (MessageHeader mid False) n))) =
        [last (destination_chunks (run cs (MessageOutputStream_init g caps (MessageHeader mid False) n)))] \<and>
      currentPayload (run cs (MessageOutputStream_init g caps (MessageHeader mid False) n)) = None \<and>
      (\<not> list_ex is_Write cs \<longrightarrow>
         map sequenceNumber
           (destination_chunks (run cs (MessageOutputStream_init g caps (MessageHeader mid False) n))) = [1] \<and>
         map endofmsg
           (destination_chunks (run cs (MessageOutputStream_init g caps (MessageHeader mid False) n))) = [True] \<and>
         map data
           (destination_chunks (run cs (MessageOutputStream_init g caps (MessageHeader mid False) n))) = [[]]))"
proof (intro conjI impI)
  show "flags_last (map endofmsg (destination_chunks (run cs (MessageOutputStream_init g caps hdr n))))"
    using init_flags by (rule run_flags)
  show "destination_chunks (run cs' s) = destination_chunks s" if "currentPayload s = None"
    using that by (rule run_payload_null)
  let ?s0 = "MessageOutputStream_init g caps (MessageHeader mid False) n"
  assume a: "list_all is_Result (replies cs ?s0) \<and> \<not> aborted (run cs ?s0) \<and> list_ex is_Close cs"
  then have a1: "list_all is_Result (replies cs ?s0)" and a2: "\<not> aborted (run cs ?s0)"
    and a3: "list_ex is_Close cs"
    by simp_all
  have h: "header ?s0 = MessageHeader mid False" by (simp add: init_header)
  have c: "closed (run cs ?s0)" using a1 a2 a3 by (rule run_good_close)
  have o: "one_end (run cs ?s0)"
    using init_one_end h a1 a2 by (rule run_one_end)
  show "destination_chunks (run cs ?s0) \<noteq> []" using c o by simp
  show "currentPayload (run cs ?s0) = None" using c o by simp
  show "filter endofmsg (destination_chunks (run cs ?s0)) = [last (destination_chunks (run cs ?s0))]"
    using c o by (intro filter_last_only) simp_all
  assume w: "\<not> list_ex is_Write cs"
  have "only_end (run cs ?s0)"
    using init_only_end h a1 a2 w by (rule run_only_end)
  then show "map sequenceNumber (destination_chunks (run cs ?s0)) = [1]"
    and "map endofmsg (destination_chunks (run cs ?s0)) = [True]"
    and "map data (destination_chunks (run cs ?s0)) = [[]]"
    using c by simp_all
qed

theorem end_of_message_witness:
  "list_all is_Result (replies (header_sent @ [Close io_ok (Result True)]) new_stream) \<and>
   \<not> aborted (run (header_sent @ [Close io_ok (Result True)]) new_stream) \<and>
   currentPayload (run (header_sent @ [Close io_ok (Result True)]) new_stream) = None \<and>
   destination_chunks (run (header_sent @ [Close io_ok (Result True)]) new_stream) =
     [\<lparr>sequenceNumber = 1, messageId = 1, endofmsg = True, chunkCompressionAlgo = Some LZW, data = []\<rparr>] \<and>
   destination_chunks (run [Write [1] 0 1, Flush io_ok]
       (run (header_sent @ [Close io_ok (Result True)]) new_stream)) =
     destination_chunks (run (header_sent @ [Close io_ok (Result True)]) new_stream)"
  using end_of_message [of "header_sent @ [Close io_ok (Result True)]" example_preferred "Some [LZW]"
      "MessageHeader 1 False" 10 "run (header_sent @ [Close io_ok (Result True)]) new_stream"
      "[Write [1] 0 1, Flush io_ok]" 1]
  by (simp add: eval_defs)

text \<open>
  The claim as stated fails: the stream is closed, the destination takes the final chunk
  and then reports that its flush did not succeed, and \<^verbatim>\<open>flush\<close> is called again.
  Two chunks flagged end-of-message were handed to the destination, the second after the
  first.
\<close>

theorem end_of_message_counterexample:
  "replies (header_sent @ [Close io_flush_fails (Result True), Flush io_ok]) new_stream
     = [Result JUndefined, Result JUndefined, Timeout, Result (JBool True)] \<and>
   map endofmsg (destination_chunks
       (run (header_sent @ [Close io_flush_fails (Result True), Flush io_ok]) new_stream))
     = [True, True]"
  by (simp add: eval_defs)


section \<open>Writing to a closed stream, to an error message, to a handshake message\<close>

text \<open>
  C2, as the code has it. \<^verbatim>\<open>write\<close> tests, in this order: aborted (the result is
  false), timed out (a timeout), a recorded error (raised again), closed (the
  \<^verbatim>\<open>MslIoException\<close> "Message output stream already closed."), the offset, the length
  and their sum (a \<^verbatim>\<open>RangeError\<close> each, whatever the header), and only then the
  header: the \<^verbatim>\<open>MslInternalException\<close> for an error message or for a handshake
  message. On an open stream with a data-bearing header the slice is appended and its
  length returned. On a stream that is closed or has an error header or a handshake
  header, \<^verbatim>\<open>write\<close> returns no byte count and leaves the stream as it was.
\<close>

theorem write_refused:
  "(aborted s \<longrightarrow> MessageOutputStream_write dat off len s = (Result (JBool False), s)) \<and>
   (\<not> aborted s \<and> timedout s \<longrightarrow> MessageOutputStream_write dat off len s = (Timeout, s)) \<and>
   (\<not> aborted s \<and> \<not> timedout s \<and> errored s = Some e \<longrightarrow>
      MessageOutputStream_write dat off len s = (Error (Raised e), s)) \<and>
   (closed s \<and> \<not> aborted s \<and> \<not> timedout s \<and> errored s = None \<longrightarrow>
      MessageOutputStream_write dat off len s =
        (Error (MslIoException ''Message output stream already closed.''), s)) \<and>
   (\<not> closed s \<and> \<not> aborted s \<and> \<not> timedout s \<and> errored s = None \<and> off < 0 \<longrightarrow>
      MessageOutputStream_write dat off len s =
        (Error (RangeError ''Offset cannot be negative.''), s)) \<and>
   (\<not> closed s \<and> \<not> aborted s \<and> \<not> timedout s \<and> errored s = None \<and> 0 \<le> off \<and> len < 0 \<longrightarrow>
      MessageOutputStream_write dat off len s =
        (Error (RangeError ''Length cannot be negative.''), s)) \<and>
   (\<not> closed s \<and> \<not> aborted s \<and> \<not> timedout s \<and> errored s = None \<and> 0 \<le> off \<and> 0 \<le> len \<and>
    int (length dat) < off + len \<longrightarrow>
      MessageOutputStream_write dat off len s =
        (Error (RangeError ''Offset plus length cannot be greater than the array length.''), s)) \<and>
   (header s = ErrorHeader \<and> \<not> closed s \<and> \<not> aborted s \<and> \<not> timedout s \<and> errored s = None \<and>
    0 \<le> off \<and> 0 \<le> len \<and> off + len \<le> int (length dat) \<longrightarrow>
      MessageOutputStream_write dat off len s =
        (Error (MslInternalException ''Cannot write payload data for an error message.''), s)) \<and>
   (header s = MessageHeader mid True \<and> \<not> closed s \<and> \<not> aborted s \<and> \<not> timedout s \<and>
    errored s = None \<and> 0 \<le> off \<and> 0 \<le> len \<and> off + len \<le> int (length dat) \<longrightarrow>
      MessageOutputStream_write dat off len s =
        (Error (MslInternalException ''Cannot write payload data for a handshake message.''), s)) \<and>
   (header s = MessageHeader mid False \<and> currentPayload s = Some segments \<and> \<not> closed s \<and>
    \<not> aborted s \<and> \<not> timedout s \<and> errored s = None \<and>
    0 \<le> off \<and> 0 \<le> len \<and> off + len \<le> int (length dat) \<longrightarrow>
      MessageOutputStream_write dat off len s =
        (Result (JNum len),
         s\<lparr>currentPayload := Some (segments @ [take (nat len) (drop (nat off) dat)])\<rparr>)) \<and>
   (closed s \<or> header s = ErrorHeader \<or> header s = MessageHeader mid True \<longrightarrow>
      snd (MessageOutputStream_write dat off len s) = s \<and>
      (\<forall>k. fst (MessageOutputStream_write dat off len s) \<noteq> Result (JNum k)))"
proof -
  have n: "0 \<le> off \<Longrightarrow> 0 \<le> len \<Longrightarrow> off + len \<le> int (length dat) \<Longrightarrow>
           int (length (take (nat len) (drop (nat off) dat))) = len"
    by (simp add: min_def) linarith
  show ?thesis
    using n
    by (auto simp: MessageOutputStream_write_def getMessageHeader_def Let_def
        split: option.splits header.splits)
qed

theorem write_refused_witness:
  "closed (run (header_sent @ [Close io_ok (Result True)]) new_stream) \<and>
   MessageOutputStream_write [1] 0 1 (run (header_sent @ [Close io_ok (Result True)]) new_stream) =
     (Error (MslIoException ''Message output stream already closed.''),
      run (header_sent @ [Close io_ok (Result True)]) new_stream) \<and>
   MessageOutputStream_write [1] 0 1 (run header_sent error_stream) =
     (Error (MslInternalException ''Cannot write payload data for an error message.''),
      run header_sent error_stream) \<and>
   MessageOutputStream_write [1] 0 1 (run header_sent handshake_stream) =
     (Error (MslInternalException ''Cannot write payload data for a handshake message.''),
      run header_sent handshake_stream) \<and>
   MessageOutputStream_write [1] (- 1) 1 (run header_sent error_stream) =
     (Error (RangeError ''Offset cannot be negative.''), run header_sent error_stream) \<and>
   MessageOutputStream_write [1] 0 (- 1) (run header_sent error_stream) =
     (Error (RangeError ''Length cannot be negative.''), run header_sent error_stream) \<and>
   MessageOutputStream_write [1] 1 1 (run header_sent handshake_stream) =
     (Error (RangeError ''Offset plus length cannot be greater than the array length.''),
      run header_sent handshake_stream) \<and>
   MessageOutputStream_write [1] 0 1 (run [Async AbortCall] error_stream) =
     (Result (JBool False), run [Async AbortCall] error_stream) \<and>
   MessageOutputStream_write [1] 0 1 (run [Async (HeaderWritten WriteTimeout)] error_stream) =
     (Timeout, run [Async (HeaderWritten WriteTimeout)] error_stream) \<and>
   MessageOutputStream_write [1] 0 1
       (run [Async (HeaderWritten (WriteError (Cause False ''reset'')))] error_stream) =
     (Error (Raised (Cause False ''reset'')),
      run [Async (HeaderWritten (WriteError (Cause False ''reset'')))] error_stream) \<and>
   MessageOutputStream_write [7, 8, 9] 1 2 (run header_sent new_stream) =
     (Result (JNum 2), (run header_sent new_stream)\<lparr>currentPayload := Some [[8, 9]]\<rparr>)"
  using write_refused [of "run (header_sent @ [Close io_ok (Result True)]) new_stream" "[1]" 0 1]
    write_refused [of "run header_sent error_stream" "[1]" 0 1]
    write_refused [of "run header_sent handshake_stream" "[1]" 0 1 _ 1]
    write_refused [of "run header_sent error_stream" "[1]" "- 1" 1]
    write_refused [of "run header_sent error_stream" "[1]" 0 "- 1"]
    write_refused [of "run header_sent handshake_stream" "[1]" 1 1]
    write_refused [of "run [Async AbortCall] error_stream" "[1]" 0 1]
    write_refused [of "run [Async (HeaderWritten WriteTimeout)] error_stream" "[1]" 0 1]
    write_refused [of "run [Async (HeaderWritten (WriteError (Cause False ''reset'')))] error_stream"
      "[1]" 0 1 "Cause False ''reset''"]
    write_refused [of "run header_sent new_stream" "[7, 8, 9]" 1 2 _ 1 "[]"]
  by (simp add: eval_more)

text \<open>
  The claim as stated fails. On a stream that was closed and then aborted \<^verbatim>\<open>write\<close>
  does not fail: it returns false. And on a stream that was closed and nothing else, the
  failure is the \<^verbatim>\<open>MslIoException\<close> of input and output, not the
  \<^verbatim>\<open>MslInternalException\<close> that the code raises for the misuse of an error message or
  a handshake message.
\<close>

theorem write_refused_counterexample:
  "closed (run (header_sent @ [Close io_ok (Result True), Async AbortCall]) new_stream) \<and>
   fst (MessageOutputStream_write [1] 0 1
          (run (header_sent @ [Close io_ok (Result True), Async AbortCall]) new_stream))
     = Result (JBool False) \<and>
   closed (run (header_sent @ [Close io_ok (Result True)]) new_stream) \<and>
   fst (MessageOutputStream_write [1] 0 1 (run (header_sent @ [Close io_ok (Result True)]) new_stream))
     = Error (MslIoException ''Message output stream already closed.'')"
  by (simp add: eval_more)


section \<open>Abort, timeout and recorded error\<close>

lemma flush_aborted_reply:
  assumes "aborted s" and "fst (flush io s) \<noteq> Result False"
  shows "\<not> ready s \<and> fst (poll (during_poll io) s) = Expired"
proof (cases "ready s")
  case True
  then have "flush io s = perform io s" by (simp add: flush_def)
  then show ?thesis using assms by (simp add: perform_def)
next
  case False
  obtain p s1 where p: "poll (during_poll io) s = (p, s1)" by (cases "poll (during_poll io) s")
  then have "aborted s1" using poll_aborted [OF assms(1), of "during_poll io"] by simp
  then have "perform io s1 = (Result False, s1)" by (simp add: perform_def)
  then show ?thesis using False p assms(2) by (cases p) (simp_all add: flush_def)
qed

lemma flush_success_not_aborted:
  "aborted (snd (flush io s)) \<Longrightarrow> fst (flush io s) \<noteq> Result True"
  using flush_effect [of io s] by auto

text \<open>
  C7, as the code has it. On an aborted stream \<^verbatim>\<open>write\<close> and \<^verbatim>\<open>close\<close> return
  false at once, and so does the body of \<^verbatim>\<open>flush\<close>, whatever the timed-out flag and
  the recorded error; \<^verbatim>\<open>flush\<close> returns false unless it has to wait for readiness
  and the wait expires. An \<^verbatim>\<open>abort()\<close> that arrives while \<^verbatim>\<open>flush\<close> waits for
  readiness releases it with the result false. A flush never reports success on a stream
  that is aborted when it ends. On a stream that is not aborted, the timed-out flag is
  reported as a timeout before a recorded error is raised again.
\<close>

theorem abort_first:
  "(aborted s \<longrightarrow>
      MessageOutputStream_write dat off len s = (Result (JBool False), s) \<and>
      close io closing s = (Result False, s) \<and>
      perform io s = (Result False, s) \<and>
      (ready s \<longrightarrow> flush io s = (Result False, s)) \<and>
      (fst (flush io s) \<noteq> Result False \<longrightarrow> \<not> ready s \<and> fst (poll (during_poll io) s) = Expired)) \<and>
   (\<not> ready s \<and> readyQueue s = [] \<and> during_poll io = AbortCall # evs \<longrightarrow>
      flush io s = (Result False, abort s)) \<and>
   (aborted (snd (flush io s)) \<longrightarrow> fst (flush io s) \<noteq> Result True) \<and>
   (\<not> aborted s \<and> timedout s \<longrightarrow>
      MessageOutputStream_write dat off len s = (Timeout, s) \<and>
      close io closing s = (Timeout, s) \<and>
      perform io s = (Timeout, s)) \<and>
   (\<not> aborted s \<and> \<not> timedout s \<and> errored s = Some e \<longrightarrow>
      MessageOutputStream_write dat off len s = (Error (Raised e), s) \<and>
      close io closing s = (Error (Raised e), s) \<and>
      perform io s = (Error (Raised e), s))"
proof -
  have r: "aborted s \<Longrightarrow> ready s \<Longrightarrow> flush io s = (Result False, s)"
    by (simp add: flush_def perform_def)
  have w: "\<not> ready s \<and> readyQueue s = [] \<and> during_poll io = AbortCall # evs \<Longrightarrow>
           flush io s = (Result False, abort s)"
    by (simp add: flush_def)
  have e: "aborted s \<Longrightarrow> fst (flush io s) \<noteq> Result False \<Longrightarrow>
           \<not> ready s \<and> fst (poll (during_poll io) s) = Expired"
    by (rule flush_aborted_reply)
  have n: "aborted (snd (flush io s)) \<Longrightarrow> fst (flush io s) \<noteq> Result True"
    by (rule flush_success_not_aborted)
  have a: "aborted s \<Longrightarrow>
      MessageOutputStream_write dat off len s = (Result (JBool False), s) \<and>
      close io closing s = (Result False, s) \<and> perform io s = (Result False, s)"
    by (simp add: MessageOutputStream_write_def close_def perform_def)
  have t: "\<not> aborted s \<and> timedout s \<Longrightarrow>
      MessageOutputStream_write dat off len s = (Timeout, s) \<and>
      close io closing s = (Timeout, s) \<and> perform io s = (Timeout, s)"
    by (simp add: MessageOutputStream_write_def close_def perform_def)
  have x: "\<not> aborted s \<and> \<not> timedout s \<and> errored s = Some e \<Longrightarrow>
      MessageOutputStream_write dat off len s = (Error (Raised e), s) \<and>
      close io closing s = (Error (Raised e), s) \<and> perform io s = (Error (Raised e), s)"
    by (simp add: MessageOutputStream_write_def close_def perform_def)
  from r w e n a t x show ?thesis by blast
qed

theorem abort_first_witness:
  "aborted (run (header_sent @ [Write [1] 0 1, Async AbortCall]) new_stream) \<and>
   MessageOutputStream_write [2] 0 1 (run (header_sent @ [Write [1] 0 1, Async AbortCall]) new_stream) =
     (Result (JBool False), run (header_sent @ [Write [1] 0 1, Async AbortCall]) new_stream) \<and>
   close io_ok (Result True) (run (header_sent @ [Write [1] 0 1, Async AbortCall]) new_stream) =
     (Result False, run (header_sent @ [Write [1] 0 1, Async AbortCall]) new_stream) \<and>
   flush io_ok (run (header_sent @ [Write [1] 0 1, Async AbortCall]) new_stream) =
     (Result False, run (header_sent @ [Write [1] 0 1, Async AbortCall]) new_stream) \<and>
   flush io_abort_while_waiting new_stream = (Result False, abort new_stream) \<and>
   fst (flush io_ok (run [Async (HeaderWritten WriteTimeout)] new_stream)) = Timeout \<and>
   fst (flush io_ok (run [Async (HeaderWritten (WriteError (Cause False ''reset'')))] new_stream)) =
     Error (Raised (Cause False ''reset''))"
  using abort_first [of "run (header_sent @ [Write [1] 0 1, Async AbortCall]) new_stream"
      "[2]" 0 1 io_ok "Result True"]
    abort_first [of new_stream "[2]" 0 1 io_abort_while_waiting "Result True" "[]"]
    abort_first [of "run [Async (HeaderWritten WriteTimeout)] new_stream" "[2]" 0 1 io_ok "Result True"]
    abort_first [of "run [Async (HeaderWritten (WriteError (Cause False ''reset'')))] new_stream"
      "[2]" 0 1 io_ok "Result True" "[]" "Cause False ''reset''"]
  by (simp add: eval_more)

text \<open>
  The claim as stated fails. A flush is pending in the destination's write when
  \<^verbatim>\<open>abort()\<close> is called, and the destination then reports a timeout: the flush ends
  in a timeout. And a stream is aborted while its header is being written; a flush called
  afterwards waits for readiness, and when the wait expires it ends in a timeout.
\<close>

theorem abort_first_counterexample:
  "aborted (snd (flush io_abort_then_timeout (run (header_sent @ [Write [1] 0 1]) new_stream))) \<and>
   fst (flush io_abort_then_timeout (run (header_sent @ [Write [1] 0 1]) new_stream)) = Timeout \<and>
   aborted (run [Async AbortCall] new_stream) \<and>
   fst (flush io_ok (run [Async AbortCall] new_stream)) = Timeout"
  by (simp add: eval_more)


section \<open>Changing the compression algorithm\<close>

lemma flush_old_algorithm:
  "list_all (\<lambda>c. chunkCompressionAlgo c = compressionAlgo s)
     (drop (length (destination_chunks s)) (destination_chunks (snd (flush io s))))"
  using flush_effect [of io s] by auto

text \<open>
  C8, as the code has it. On a stream with an error header
  \<^verbatim>\<open>setCompressionAlgorithm\<close> fails with an \<^verbatim>\<open>MslInternalException\<close>. On a stream
  with a message header it returns true and changes nothing when the algorithm is the
  current one; it returns false and changes nothing when the algorithm differs, is not
  null and is not among the negotiated ones; and when the algorithm differs and is null
  or among the negotiated ones it flushes first: every chunk that flush emits carries the
  old algorithm, and then, if the flush reported success, the algorithm is changed and
  the result is true; if the flush reported false (aborted) the result is the
  \<^verbatim>\<open>MslIoException\<close> "flush() aborted", and a timeout or error of the flush is passed
  on, in all three cases with the algorithm unchanged.
\<close>

theorem setCompressionAlgorithm_outcome:
  "(header s = ErrorHeader \<longrightarrow>
      setCompressionAlgorithm algo io s =
        (Error (MslInternalException ''Cannot write payload data for an error message.''), s)) \<and>
   (header s \<noteq> ErrorHeader \<and> compressionAlgo s = algo \<longrightarrow>
      setCompressionAlgorithm algo io s = (Result True, s)) \<and>
   (header s \<noteq> ErrorHeader \<and> compressionAlgo s \<noteq> Some a \<and>
    (capabilities s = None \<or> (\<exists>algos. capabilities s = Some algos \<and> a \<notin> set algos)) \<longrightarrow>
      setCompressionAlgorithm (Some a) io s = (Result False, s)) \<and>
   (header s \<noteq> ErrorHeader \<and> compressionAlgo s \<noteq> algo \<and>
    (algo = None \<or> (\<exists>b algos. algo = Some b \<and> capabilities s = Some algos \<and> b \<in> set algos)) \<longrightarrow>
      list_all (\<lambda>c. chunkCompressionAlgo c = compressionAlgo s)
        (drop (length (destination_chunks s)) (destination_chunks (snd (flush io s)))) \<and>
      compressionAlgo (snd (flush io s)) = compressionAlgo s \<and>
      (fst (flush io s) = Result True \<longrightarrow>
         setCompressionAlgorithm algo io s = (Result True, (snd (flush io s))\<lparr>compressionAlgo := algo\<rparr>)) \<and>
      (fst (flush io s) = Result False \<longrightarrow>
         setCompressionAlgorithm algo io s = (Error (MslIoException ''flush() aborted''), snd (flush io s))) \<and>
      (fst (flush io s) = Timeout \<longrightarrow>
         setCompressionAlgorithm algo io s = (Timeout, snd (flush io s))) \<and>
      (fst (flush io s) = Error x \<longrightarrow>
         setCompressionAlgorithm algo io s = (Error x, snd (flush io s))))"
proof -
  have f: "flush_then_set al io s =
      (case fst (flush io s) of
         Result success \<Rightarrow>
           if success then (Result True, (snd (flush io s))\<lparr>compressionAlgo := al\<rparr>)
           else (Error (MslIoException ''flush() aborted''), snd (flush io s))
       | Timeout \<Rightarrow> (Timeout, snd (flush io s))
       | Error x \<Rightarrow> (Error x, snd (flush io s)))" for al
    by (cases "flush io s") (simp add: flush_then_set_def split: outcome.splits)
  show ?thesis
    using flush_old_algorithm [of s io]
    by (cases "header s")
      (auto simp: setCompressionAlgorithm_def getMessageHeader_def f split: option.splits)
qed

theorem setCompressionAlgorithm_outcome_witness:
  "setCompressionAlgorithm (Some LZW) io_ok (run (header_sent @ [Write [1] 0 1]) gzip_lzw_stream) =
     (Result True,
      (snd (flush io_ok (run (header_sent @ [Write [1] 0 1]) gzip_lzw_stream)))
        \<lparr>compressionAlgo := Some LZW\<rparr>) \<and>
   map chunkCompressionAlgo
     (destination_chunks (snd (flush io_ok (run (header_sent @ [Write [1] 0 1]) gzip_lzw_stream))))
     = [Some GZIP] \<and>
   setCompressionAlgorithm (Some GZIP) io_ok (run header_sent gzip_lzw_stream) =
     (Result True, run header_sent gzip_lzw_stream) \<and>
   setCompressionAlgorithm (Some GZIP) io_ok (run header_sent new_stream) =
     (Result False, run header_sent new_stream) \<and>
   setCompressionAlgorithm (Some LZW) io_ok (run header_sent error_stream) =
     (Error (MslInternalException ''Cannot write payload data for an error message.''),
      run header_sent error_stream)"
  using setCompressionAlgorithm_outcome
      [of "run (header_sent @ [Write [1] 0 1]) gzip_lzw_stream" "Some LZW" io_ok]
    setCompressionAlgorithm_outcome [of "run header_sent gzip_lzw_stream" "Some GZIP" io_ok]
    setCompressionAlgorithm_outcome [of "run header_sent new_stream" "Some LZW" io_ok GZIP]
    setCompressionAlgorithm_outcome [of "run header_sent error_stream" "Some LZW" io_ok]
  by (simp add: eval_more)

text \<open>
  The claim as stated fails: the algorithm differs from the current one and is among the
  negotiated ones, and the result is not true. With one byte buffered and a destination
  whose flush reports failure the result is a timeout; on an aborted stream it is the
  exception "flush() aborted". In both cases the algorithm stays as it was.
\<close>

theorem setCompressionAlgorithm_counterexample:
  "fst (setCompressionAlgorithm (Some LZW) io_flush_fails
          (run (header_sent @ [Write [1] 0 1]) gzip_lzw_stream)) = Timeout \<and>
   compressionAlgo (snd (setCompressionAlgorithm (Some LZW) io_flush_fails
          (run (header_sent @ [Write [1] 0 1]) gzip_lzw_stream))) = Some GZIP \<and>
   fst (setCompressionAlgorithm (Some LZW) io_ok
          (run (header_sent @ [Async AbortCall]) gzip_lzw_stream))
     = Error (MslIoException ''flush() aborted'') \<and>
   compressionAlgo (snd (setCompressionAlgorithm (Some LZW) io_ok
          (run (header_sent @ [Async AbortCall]) gzip_lzw_stream))) = Some GZIP"
  by (simp add: eval_more)


end
